theory Spec2Isabelle
  imports Complex_Main "HOL-Library.Sublist" "HOL-Library.Multiset" "HOL-Library.AList"
begin

section \<open>JavaScript library functions used by App.tsx\<close>

text \<open>
  Strings are lists of 8-bit characters: the Latin-1 range of JavaScript's UTF-16 code
  units. A value that may be \<open>undefined\<close> at run time is an \<open>option\<close>.
\<close>

text \<open>\<open>array[i]\<close>: reading past the end of an array yields \<open>undefined\<close>.\<close>

definition nth_js :: "'a list \<Rightarrow> nat \<Rightarrow> 'a option" where
  "nth_js xs i = (if i < length xs then Some (xs ! i) else None)"

text \<open>\<open>Array.prototype.join\<close>: an \<open>undefined\<close> element is rendered as the empty string.\<close>

fun toString_elem :: "string option \<Rightarrow> string" where
  "toString_elem None = []"
| "toString_elem (Some s) = s"

fun join :: "string \<Rightarrow> string option list \<Rightarrow> string" where
  "join sep [] = []"
| "join sep [x] = toString_elem x"
| "join sep (x # y # ys) = toString_elem x @ sep @ join sep (y # ys)"

text \<open>\<open>content.split("\n")\<close>: the empty string splits into one empty line.\<close>

fun split_lines :: "string \<Rightarrow> string list" where
  "split_lines [] = [[]]"
| "split_lines (c # cs) =
     (if c = CHR 0x0A then [] # split_lines cs
      else (case split_lines cs of [] \<Rightarrow> [[c]] | l # ls \<Rightarrow> (c # l) # ls))"

text \<open>
  \<open>line.replace(/^\d+\.\s*/, "")\<close>: one or more leading decimal digits, a dot, and the
  white space after it are removed; any other line is kept as it is.
\<close>

definition is_digit :: "char \<Rightarrow> bool" where
  "is_digit c = (48 \<le> (of_char c :: nat) \<and> (of_char c :: nat) \<le> 57)"

definition is_space :: "char \<Rightarrow> bool" where
  "is_space c = (c \<in> set [CHR 0x09, CHR 0x0A, CHR 0x0B, CHR 0x0C, CHR 0x0D, CHR 0x20, CHR 0xA0])"

definition strip_numbering :: "string \<Rightarrow> string" where
  "strip_numbering line =
     (let rest = dropWhile is_digit line
      in if rest \<noteq> line \<and> rest \<noteq> [] \<and> hd rest = CHR ''.''
         then dropWhile is_space (tl rest) else line)"

text \<open>
  \<open>content?.split("\n").map(...).filter(Boolean) || []\<close>: a \<open>null\<close> content gives no
  lines, and empty lines are dropped.
\<close>

definition parse_lines :: "string option \<Rightarrow> string list" where
  "parse_lines content =
     (case content of
        None \<Rightarrow> []
      | Some c \<Rightarrow> filter (\<lambda>l. l \<noteq> []) (map strip_numbering (split_lines c)))"

text \<open>
  \<open>String.prototype.replace\<close> with a string pattern replaces the first occurrence only,
  and expands the patterns \<open>$$\<close>, \<open>$&\<close> (the match), \<open>$`\<close> (the text before the match,
  \<open>pre\<close>) and \<open>$'\<close> (the text after it, \<open>post\<close>) of the replacement text; there are no
  capture groups, so \<open>$1\<close> and \<open>$<\<close> stay as they are.
\<close>

fun GetSubstitution :: "string \<Rightarrow> string \<Rightarrow> string \<Rightarrow> string \<Rightarrow> string" where
  "GetSubstitution matched pre post [] = []"
| "GetSubstitution matched pre post [c] = [c]"
| "GetSubstitution matched pre post (c # d # ds) =
     (if c = CHR ''$'' \<and> d = CHR ''$'' then CHR ''$'' # GetSubstitution matched pre post ds
      else if c = CHR ''$'' \<and> d = CHR ''&'' then matched @ GetSubstitution matched pre post ds
      else if c = CHR ''$'' \<and> d = CHR 0x60 then pre @ GetSubstitution matched pre post ds
      else if c = CHR ''$'' \<and> d = CHR 0x27 then post @ GetSubstitution matched pre post ds
      else c # GetSubstitution matched pre post (d # ds))"

fun split_first :: "string \<Rightarrow> string \<Rightarrow> (string \<times> string) option" where
  "split_first pat [] = (if pat = [] then Some ([], []) else None)"
| "split_first pat (c # cs) =
     (if prefix pat (c # cs) then Some ([], drop (length pat) (c # cs))
      else (case split_first pat cs of
              None \<Rightarrow> None
            | Some (pre, post) \<Rightarrow> Some (c # pre, post)))"

definition replace_js :: "string \<Rightarrow> string \<Rightarrow> string \<Rightarrow> string" where
  "replace_js pat replacement s =
     (case split_first pat s of
        None \<Rightarrow> s
      | Some (pre, post) \<Rightarrow> pre @ GetSubstitution pat pre post replacement @ post)"

section \<open>shuffleArray\<close>

text \<open>
  The results of the successive calls of \<open>Math.random()\<close> are a sequence \<open>rnd\<close> of
  numbers; \<open>Math.random\<close> returns a number in the interval from 0 (included) to 1
  (excluded). The products \<open>Math.random() * (i + 1)\<close> are taken exactly.
\<close>

definition unit_interval :: "(nat \<Rightarrow> rat) \<Rightarrow> bool" where
  "unit_interval rnd = (\<forall>k. 0 \<le> rnd k \<and> rnd k < 1)"

text \<open>
  The loop \<open>for (let i = shuffled.length - 1; i > 0; i--)\<close> on the local array
  \<open>shuffled\<close>; \<open>k\<close> counts the calls of \<open>Math.random\<close> made so far.
\<close>

fun shuffle_loop :: "nat \<Rightarrow> (nat \<Rightarrow> rat) \<Rightarrow> nat \<Rightarrow> 'a list \<Rightarrow> 'a list" where
  "shuffle_loop 0 rnd k shuffled = shuffled"
| "shuffle_loop (Suc i) rnd k shuffled =
     (let j = nat \<lfloor>rnd k * of_nat (Suc i + 1)\<rfloor>
      in shuffle_loop i rnd (k + 1) (shuffled[Suc i := shuffled ! j, j := shuffled ! Suc i]))"

definition shuffleArray :: "(nat \<Rightarrow> rat) \<Rightarrow> 'a list \<Rightarrow> 'a list" where
  "shuffleArray rnd array = shuffle_loop (length array - 1) rnd 0 array"

text \<open>
  The same function on a store of array objects, where an array is known by its
  reference (its position in the store): \<open>[...array]\<close> allocates a copy, and the loop
  writes to that copy only.
\<close>

type_synonym 'a store = "'a list list"

definition spread_copy :: "'a store \<Rightarrow> nat \<Rightarrow> 'a store \<times> nat" where
  "spread_copy st a = (st @ [st ! a], length st)"

fun shuffle_loop_st :: "nat \<Rightarrow> (nat \<Rightarrow> rat) \<Rightarrow> nat \<Rightarrow> nat \<Rightarrow> 'a store \<Rightarrow> 'a store" where
  "shuffle_loop_st 0 rnd k r st = st"
| "shuffle_loop_st (Suc i) rnd k r st =
     (let j = nat \<lfloor>rnd k * of_nat (Suc i + 1)\<rfloor>;
          shuffled = st ! r
      in shuffle_loop_st i rnd (k + 1) r
           (st[r := shuffled[Suc i := shuffled ! j, j := shuffled ! Suc i]]))"

definition shuffleArray_st :: "(nat \<Rightarrow> rat) \<Rightarrow> nat \<Rightarrow> 'a store \<Rightarrow> 'a store \<times> nat" where
  "shuffleArray_st rnd a st =
     (let (st1, r) = spread_copy st a
      in (shuffle_loop_st (length (st1 ! r) - 1) rnd 0 r st1, r))"

section \<open>Data model\<close>

record Category =
  id_cat :: string
  name_cat :: string
  prompt_cat :: string

record GameConfig =
  duration :: rat
  categories :: "Category list"

text \<open>
  \<open>GameResult.prompt\<close> and the elements of \<open>usedPrompts\<close> are declared \<open>string\<close>;
  \<open>handleResult\<close> stores \<open>availablePrompts[currentPromptIndex]\<close> in them, which is
  \<open>undefined\<close> when the index is past the end.
\<close>

record GameResult =
  prompt :: "string option"
  correct :: bool

record GameState =
  availablePrompts :: "string list"
  usedPrompts :: "string option list"
  isLoadingMore :: bool
  promptCategories :: "(string \<times> string) list"

text \<open>The argument of \<open>openai.chat.completions.create\<close>, with its single user message.\<close>

record ChatRequest =
  model :: string
  content :: string
  temperature :: rat

text \<open>
  What awaiting the call and reading \<open>completion.choices[0].message.content\<close> gives:
  an exception (the promise is rejected, or there is no first choice), or the content,
  which may be \<open>null\<close>.
\<close>

datatype Completion = Rejected | Resolved "string option"

definition BASE_PROMPT :: string where
  "BASE_PROMPT =
     ''Generate exactly {count} {category} for a game of charades.\<newline>'' @
     ''Format: One item per line, no numbers, no extra text.\<newline>'' @
     ''Keep items simple, and don't only include the most popular items (otherwise, it's the same every time).\<newline>'' @
     ''Items should be easy to describe or act out.\<newline>'' @
     ''Do not include any introductory text or explanations.\<newline>'' @
     ''{exclusions}''"

section \<open>GameScreen\<close>

text \<open>
  The state of one mounted \<open>GameScreen\<close>: its \<open>category\<close> prop, its five state
  variables, the \<open>count\<close> of its \<open>Countdown\<close> child, and the requests that
  \<open>fetchMorePrompts\<close> is awaiting (\<open>inflight\<close> is not a variable of the program: it
  records the calls of \<open>openai.chat.completions.create\<close> that have not settled yet).
\<close>

record GameScreen =
  category :: Category
  timeLeft :: rat
  currentPromptIndex :: nat
  results :: "GameResult list"
  gameState :: GameState
  showCountdown :: bool
  countdown :: nat
  inflight :: "ChatRequest list"

definition GameScreen_mount ::
  "rat \<Rightarrow> string list \<Rightarrow> Category \<Rightarrow> (string \<times> string) list \<Rightarrow> GameScreen" where
  "GameScreen_mount d initialPrompts c pcs =
     \<lparr>category = c, timeLeft = d * 60, currentPromptIndex = 0, results = [],
      gameState = \<lparr>availablePrompts = initialPrompts, usedPrompts = [],
                   isLoadingMore = False, promptCategories = pcs\<rparr>,
      showCountdown = True, countdown = 3, inflight = []\<rparr>"

definition exclusionText :: "string option list \<Rightarrow> string" where
  "exclusionText used =
     (if length used > 0
      then ''\<newline>Do not include any of these items:\<newline>'' @ join ''\<newline>'' used
      else [])"

definition fetch_request :: "Category \<Rightarrow> string option list \<Rightarrow> ChatRequest" where
  "fetch_request c used =
     \<lparr>model = ''gpt-4o-mini'',
      content =
        replace_js ''{exclusions}'' (exclusionText used)
          (replace_js ''{category}'' (prompt_cat c)
             (replace_js ''{count}'' ''60'' BASE_PROMPT)),
      temperature = 2\<rparr>"

text \<open>
  The first effect of \<open>GameScreen\<close>: when ten or fewer prompts are left and
  \<open>isLoadingMore\<close> is false, \<open>fetchMorePrompts\<close> sets the flag and sends its request,
  built from the \<open>usedPrompts\<close> of this render.
\<close>

definition fetchMorePrompts_effect :: "GameScreen \<Rightarrow> GameScreen" where
  "fetchMorePrompts_effect g =
     (if int (length (availablePrompts (gameState g))) - int (currentPromptIndex g) \<le> 10 \<and>
         \<not> isLoadingMore (gameState g)
      then g\<lparr>gameState := (gameState g)\<lparr>isLoadingMore := True\<rparr>,
             inflight := inflight g @ [fetch_request (category g) (usedPrompts (gameState g))]\<rparr>
      else g)"

text \<open>
  The rest of \<open>fetchMorePrompts\<close>, run when the awaited request settles: the \<open>try\<close>
  branch appends the shuffled lines of the answer, the \<open>catch\<close> branch only clears the
  flag. Without an outstanding request there is nothing to settle.
\<close>

definition fetchMorePrompts_settle :: "Completion \<Rightarrow> (nat \<Rightarrow> rat) \<Rightarrow> GameScreen \<Rightarrow> GameScreen" where
  "fetchMorePrompts_settle completion rnd g =
     (case inflight g of
        [] \<Rightarrow> g
      | req # rest \<Rightarrow>
          (case completion of
             Rejected \<Rightarrow>
               g\<lparr>gameState := (gameState g)\<lparr>isLoadingMore := False\<rparr>, inflight := rest\<rparr>
           | Resolved c \<Rightarrow>
               (let newPrompts = shuffleArray rnd (parse_lines c)
                in g\<lparr>gameState := (gameState g)
                         \<lparr>availablePrompts := availablePrompts (gameState g) @ newPrompts,
                          isLoadingMore := False\<rparr>,
                     inflight := rest\<rparr>)))"

definition handleResult :: "bool \<Rightarrow> GameScreen \<Rightarrow> GameScreen" where
  "handleResult c g =
     (let currentPrompt = nth_js (availablePrompts (gameState g)) (currentPromptIndex g);
          g1 = g\<lparr>results := results g @ [\<lparr>prompt = currentPrompt, correct = c\<rparr>],
                 gameState := (gameState g)
                   \<lparr>usedPrompts := usedPrompts (gameState g) @ [currentPrompt]\<rparr>\<rparr>
      in if int (currentPromptIndex g) \<ge> int (length (availablePrompts (gameState g))) - 1 \<and>
            isLoadingMore (gameState g)
         then g1
         else g1\<lparr>currentPromptIndex := currentPromptIndex g + 1\<rparr>)"

text \<open>
  The callback of \<open>setInterval\<close>: the new \<open>timeLeft\<close>, and the argument of
  \<open>onGameEnd\<close> when it is called.
\<close>

definition timer_tick :: "GameScreen \<Rightarrow> GameScreen \<times> GameResult list option" where
  "timer_tick g =
     (if timeLeft g \<le> 1 then (g\<lparr>timeLeft := 0\<rparr>, Some (results g))
      else (g\<lparr>timeLeft := timeLeft g - 1\<rparr>, None))"

text \<open>
  \<open>Countdown\<close>: the timeout set while \<open>count > 0\<close> decrements \<open>count\<close>; at \<open>count = 0\<close>
  its effect calls \<open>onComplete\<close>, which clears \<open>showCountdown\<close>.
\<close>

definition Countdown_timeout :: "GameScreen \<Rightarrow> GameScreen" where
  "Countdown_timeout g = g\<lparr>countdown := countdown g - 1\<rparr>"

definition Countdown_effect :: "GameScreen \<Rightarrow> GameScreen" where
  "Countdown_effect g =
     (if showCountdown g \<and> countdown g = 0 then g\<lparr>showCountdown := False\<rparr> else g)"

text \<open>The effects that run after a render of \<open>GameScreen\<close>.\<close>

definition GameScreen_effects :: "GameScreen \<Rightarrow> GameScreen" where
  "GameScreen_effects g = Countdown_effect (fetchMorePrompts_effect g)"

section \<open>App\<close>

datatype Phase = PhaseSetup | PhasePlaying | PhaseEnd

text \<open>
  The state variables of \<open>App\<close> (its \<open>gameState\<close>, \<open>results\<close> and \<open>promptCategories\<close>
  carry the prefix \<open>app\<close>), the \<open>GameScreen\<close> it has mounted, if any, and the list of the
  calls of \<open>onGameEnd\<close> made so far (\<open>onGameEnd_calls\<close> is not a variable of the program).
\<close>

record App =
  app_gameState :: Phase
  gameConfig :: "GameConfig option"
  prompts :: "string list"
  app_results :: "GameResult list"
  isLoading :: bool
  app_promptCategories :: "(string \<times> string) list"
  screen :: "GameScreen option"
  onGameEnd_calls :: "GameResult list list"

definition App_mount :: App where
  "App_mount =
     \<lparr>app_gameState = PhaseSetup, gameConfig = None, prompts = [], app_results = [],
      isLoading = False, app_promptCategories = [], screen = None, onGameEnd_calls = []\<rparr>"

text \<open>
  Rendering \<open>App\<close>: \<open>GameScreen\<close> is mounted while \<open>gameState === "playing" && gameConfig\<close>,
  with \<open>category = gameConfig.categories[0]\<close>, and unmounted otherwise; an unmounted
  component loses its state. With no category at all, rendering \<open>GameScreen\<close> throws at
  \<open>category.prompt\<close>, and nothing is mounted.
\<close>

definition render :: "App \<Rightarrow> App" where
  "render s =
     (case (app_gameState s, gameConfig s) of
        (PhasePlaying, Some cfg) \<Rightarrow>
          (case screen s of
             Some g \<Rightarrow> s
           | None \<Rightarrow>
               (case categories cfg of
                  [] \<Rightarrow> s
                | c # cs \<Rightarrow>
                    s\<lparr>screen := Some (GameScreen_effects
                         (GameScreen_mount (duration cfg) (prompts s) c (app_promptCategories s)))\<rparr>))
      | other \<Rightarrow> s\<lparr>screen := None\<rparr>)"

definition endGame :: "GameResult list \<Rightarrow> App \<Rightarrow> App" where
  "endGame rs s =
     s\<lparr>app_results := rs, app_gameState := PhaseEnd, onGameEnd_calls := onGameEnd_calls s @ [rs]\<rparr>"

definition resetGame :: "App \<Rightarrow> App" where
  "resetGame s = s\<lparr>app_gameState := PhaseSetup, gameConfig := None, prompts := [], app_results := []\<rparr>"

text \<open>
  What can happen to a mounted \<open>GameScreen\<close>: the timeout of \<open>Countdown\<close> fires, the
  interval of the clock fires, the player clicks one of the two buttons, or the request
  of \<open>fetchMorePrompts\<close> settles. The interval runs and the buttons are rendered only
  once the countdown is over. Every callback belongs to the instance that created it:
  after the unmount it changes nothing.
\<close>

datatype Event = CountdownTimeout | TimerTick | Click bool | Settle Completion "nat \<Rightarrow> rat"

definition step :: "Event \<Rightarrow> App \<Rightarrow> App" where
  "step e s =
     (case screen s of
        None \<Rightarrow> s
      | Some g \<Rightarrow>
          (case e of
             CountdownTimeout \<Rightarrow>
               if showCountdown g \<and> countdown g > 0
               then s\<lparr>screen := Some (GameScreen_effects (Countdown_timeout g))\<rparr> else s
           | TimerTick \<Rightarrow>
               if showCountdown g then s
               else (case timer_tick g of
                       (g', None) \<Rightarrow> s\<lparr>screen := Some (GameScreen_effects g')\<rparr>
                     | (g', Some rs) \<Rightarrow> render (endGame rs (s\<lparr>screen := Some g'\<rparr>)))
           | Click c \<Rightarrow>
               if showCountdown g then s
               else s\<lparr>screen := Some (GameScreen_effects (handleResult c g))\<rparr>
           | Settle completion rnd \<Rightarrow>
               s\<lparr>screen := Some (GameScreen_effects (fetchMorePrompts_settle completion rnd g))\<rparr>))"

fun run :: "Event list \<Rightarrow> App \<Rightarrow> App" where
  "run [] s = s"
| "run (e # es) s = run es (step e s)"

section \<open>startGame\<close>

text \<open>
  What \<open>startGame\<close> reads from outside App.tsx: the catalogue \<open>ALL_CATEGORIES\<close> and the
  sampler \<open>getRandomOptionsForCategory\<close> of \<open>./categories\<close>, \<open>navigator.onLine\<close>, the
  text generator, and \<open>Math.random\<close>. The first argument of the three functions is the
  number of the loop iteration that calls them, since two calls need not agree.
\<close>

record World =
  ALL_CATEGORIES :: "Category list"
  getRandomOptionsForCategory :: "nat \<Rightarrow> string \<Rightarrow> nat \<Rightarrow> string list"
  isOnline :: "nat \<Rightarrow> bool"
  create :: "nat \<Rightarrow> ChatRequest \<Rightarrow> Completion"
  random :: "nat \<Rightarrow> rat"

datatype Exception = Thrown

text \<open>\<open>Math.ceil(50 / categories.length)\<close>, for a list that is not empty.\<close>

definition promptsPerCategory :: "Category list \<Rightarrow> nat" where
  "promptsPerCategory cats = nat \<lceil>(50 :: rat) / of_nat (length cats)\<rceil>"

definition sampled_categories :: "World \<Rightarrow> Category list \<Rightarrow> Category list" where
  "sampled_categories w cats =
     (if length cats = 1 \<and> id_cat (cats ! 0) = ''misc''
      then filter (\<lambda>c. id_cat c \<noteq> ''custom'' \<and> id_cat c \<noteq> ''misc'') (ALL_CATEGORIES w)
      else cats)"

text \<open>\<open>promptsPerCategory.toString()\<close>: the decimal digits of a natural number.\<close>

fun toString_nat :: "nat \<Rightarrow> string" where
  "toString_nat n =
     (if n < 10 then [char_of (48 + n)]
      else toString_nat (n div 10) @ [char_of (48 + n mod 10)])"

definition custom_request :: "nat \<Rightarrow> Category \<Rightarrow> ChatRequest" where
  "custom_request ppc c =
     \<lparr>model = ''gpt-4o-mini'',
      content =
        replace_js ''{exclusions}'' []
          (replace_js ''{category}'' (prompt_cat c)
             (replace_js ''{count}'' (toString_nat ppc) BASE_PROMPT)),
      temperature = 3 / 2\<rparr>"

text \<open>The body of the loop over the categories: the prompts of one category, or an exception.\<close>

definition categoryPrompts :: "World \<Rightarrow> nat \<Rightarrow> nat \<Rightarrow> Category \<Rightarrow> Exception + string list" where
  "categoryPrompts w ppc k c =
     (if id_cat c = ''custom''
      then (if \<not> isOnline w k then Inr [''Custom categories require internet connection'']
            else (case create w k (custom_request ppc c) of
                    Rejected \<Rightarrow> Inl Thrown
                  | Resolved txt \<Rightarrow> Inr (parse_lines txt)))
      else Inr (getRandomOptionsForCategory w k (id_cat c) ppc))"

fun collect_prompts ::
  "World \<Rightarrow> nat \<Rightarrow> nat \<Rightarrow> Category list \<Rightarrow> string list \<times> (string \<times> string) list \<Rightarrow>
   Exception + string list \<times> (string \<times> string) list" where
  "collect_prompts w ppc k [] acc = Inr acc"
| "collect_prompts w ppc k (c # cs) (allPrompts, pcs) =
     (case categoryPrompts w ppc k c of
        Inl e \<Rightarrow> Inl e
      | Inr ps \<Rightarrow>
          collect_prompts w ppc (k + 1) cs
            (allPrompts @ ps, foldl (\<lambda>m p. AList.update p (name_cat c) m) pcs ps))"

text \<open>
  \<open>startGame\<close>: the \<open>try\<close> block either completes and switches to \<open>"playing"\<close>, or is
  left by an exception, which the \<open>catch\<close> clause logs; \<open>finally\<close> clears \<open>isLoading\<close>.
\<close>

definition startGame :: "World \<Rightarrow> rat \<Rightarrow> Category list \<Rightarrow> App \<Rightarrow> App" where
  "startGame w d cats s =
     (let s1 = s\<lparr>isLoading := True\<rparr>;
          ppc = promptsPerCategory cats;
          cats' = sampled_categories w cats
      in case collect_prompts w ppc 0 cats' ([], []) of
           Inl e \<Rightarrow> s1\<lparr>isLoading := False\<rparr>
         | Inr (allPrompts, pcs) \<Rightarrow>
             render (s1\<lparr>prompts := shuffleArray (random w) allPrompts,
                        app_promptCategories := pcs,
                        gameConfig := Some \<lparr>duration = d, categories = cats'\<rparr>,
                        app_gameState := PhasePlaying,
                        isLoading := False\<rparr>))"

text \<open>
  What the categories contribute to \<open>allPrompts\<close>, one list for each category in the
  order of the loop (the empty list for a category whose request throws).
\<close>

fun contributions :: "World \<Rightarrow> nat \<Rightarrow> nat \<Rightarrow> Category list \<Rightarrow> string list list" where
  "contributions w ppc k [] = []"
| "contributions w ppc k (c # cs) =
     (case categoryPrompts w ppc k c of Inl e \<Rightarrow> [] | Inr ps \<Rightarrow> ps) #
     contributions w ppc (k + 1) cs"

section \<open>A round in progress, and example data\<close>

text \<open>
  The state of \<open>App\<close> right after a \<open>startGame\<close> that succeeded from the initial
  state: \<open>"playing"\<close>, with the given configuration and prompts.
\<close>

definition App_playing :: "rat \<Rightarrow> Category list \<Rightarrow> string list \<Rightarrow> (string \<times> string) list \<Rightarrow> App" where
  "App_playing d cats ps pcs =
     render (App_mount\<lparr>prompts := ps, app_promptCategories := pcs,
                       gameConfig := Some \<lparr>duration = d, categories = cats\<rparr>,
                       app_gameState := PhasePlaying\<rparr>)"

text \<open>The three timeouts of \<open>Countdown\<close>, after which the round is running.\<close>

definition App_running :: "rat \<Rightarrow> Category list \<Rightarrow> string list \<Rightarrow> (string \<times> string) list \<Rightarrow> App" where
  "App_running d cats ps pcs =
     run [CountdownTimeout, CountdownTimeout, CountdownTimeout] (App_playing d cats ps pcs)"

definition animals :: Category where
  "animals = \<lparr>id_cat = ''animals'', name_cat = ''Animals'', prompt_cat = ''animals''\<rparr>"

definition movies :: Category where
  "movies = \<lparr>id_cat = ''movies'', name_cat = ''Movies'', prompt_cat = ''movies''\<rparr>"

definition misc :: Category where
  "misc = \<lparr>id_cat = ''misc'', name_cat = ''All Categories'', prompt_cat = ''random things''\<rparr>"

definition custom :: Category where
  "custom = \<lparr>id_cat = ''custom'', name_cat = ''Birds'', prompt_cat = ''Birds''\<rparr>"

section \<open>Reading a sequence of events\<close>

text \<open>The number of times the interval of the clock fires in a sequence of events.\<close>

fun ticks :: "Event list \<Rightarrow> nat" where
  "ticks [] = 0"
| "ticks (TimerTick # es) = Suc (ticks es)"
| "ticks (e # es) = ticks es"

text \<open>The judgments of a sequence of events, in the order of the clicks.\<close>

fun clicks :: "Event list \<Rightarrow> bool list" where
  "clicks [] = []"
| "clicks (Click c # es) = c # clicks es"
| "clicks (e # es) = clicks es"

text \<open>The events that come before the \<open>n\<close>-th firing of the interval (all of them when it fires less often).\<close>

fun until_tick :: "nat \<Rightarrow> Event list \<Rightarrow> Event list" where
  "until_tick n [] = []"
| "until_tick n (TimerTick # es) = (if n \<le> 1 then [] else TimerTick # until_tick (n - 1) es)"
| "until_tick n (e # es) = e # until_tick n es"

section \<open>What holds of the prompt supply during a round\<close>



text \<open>
  An example of the outside of App.tsx: a catalogue of four categories, a sampler that
  never runs out of options, a network that is up, a generator that gives the same
  answer to every request, and a constant \<open>Math.random\<close>.
\<close>

definition example_world :: "Completion \<Rightarrow> World" where
  "example_world answer =
     \<lparr>ALL_CATEGORIES = [misc, animals, movies, custom],
      getRandomOptionsForCategory = (\<lambda>k c n. map (\<lambda>i. c @ '' '' @ toString_nat i) [0..<n]),
      isOnline = (\<lambda>k. True),
      create = (\<lambda>k req. answer),
      random = (\<lambda>k. 1 / 2)\<rparr>"

section \<open>The choices of a shuffle\<close>

text \<open>
  The indices \<open>j\<close> that \<open>shuffleArray\<close> draws on an array of length \<open>n\<close>: the \<open>k\<close>-th call of
  \<open>Math.random\<close> is made at \<open>i = n - 1 - k\<close> and gives
  \<open>j = Math.floor(Math.random() * (i + 1))\<close>.
\<close>

definition choices :: "nat \<Rightarrow> (nat \<Rightarrow> rat) \<Rightarrow> nat list" where
  "choices n rnd = map (\<lambda>k. nat \<lfloor>rnd k * of_nat (n - k)\<rfloor>) [0..<n - 1]"

text \<open>
  The lists of indices that a loop starting at \<open>i\<close> can draw: one index for each of
  \<open>i\<close>, \<open>i - 1\<close>, ..., 1, none of them above the position it is drawn for.
\<close>

fun valid_choices :: "nat \<Rightarrow> nat list \<Rightarrow> bool" where
  "valid_choices 0 js = (js = [])"
| "valid_choices (Suc i) [] = False"
| "valid_choices (Suc i) (j # js) = (j \<le> Suc i \<and> valid_choices i js)"

text \<open>The loop of \<open>shuffleArray\<close>, run on a given list of drawn indices.\<close>

fun shuffle_by :: "nat \<Rightarrow> nat list \<Rightarrow> 'a list \<Rightarrow> 'a list" where
  "shuffle_by 0 js shuffled = shuffled"
| "shuffle_by (Suc i) [] shuffled = shuffled"
| "shuffle_by (Suc i) (j # js) shuffled =
     shuffle_by i js (shuffled[Suc i := shuffled ! j, j := shuffled ! Suc i])"

section \<open>Properties of shuffleArray\<close>

lemma random_index_le:
  assumes "0 \<le> r" "r < (1::rat)"
  shows "nat \<lfloor>r * of_nat (Suc i + 1)\<rfloor> \<le> Suc i"
proof -
  have "r * of_nat (Suc i + 1) < of_nat (Suc i + 1)"
    using assms by (simp add: mult_less_cancel_right1 del: of_nat_Suc of_nat_add)
  then have "\<lfloor>r * of_nat (Suc i + 1)\<rfloor> < int (Suc i + 1)"
    by (simp add: floor_less_iff del: of_nat_Suc of_nat_add)
  then show ?thesis by linarith
qed

lemma shuffle_loop_length: "length (shuffle_loop i rnd k xs) = length xs"
  by (induction i arbitrary: k xs) (simp_all add: Let_def)

lemma shuffle_loop_mset:
  "unit_interval rnd \<Longrightarrow> i < length xs \<Longrightarrow> mset (shuffle_loop i rnd k xs) = mset xs"
proof (induction i arbitrary: k xs)
  case 0
  then show ?case by simp
next
  case (Suc i)
  let ?j = "nat \<lfloor>rnd k * of_nat (Suc i + 1)\<rfloor>"
  have j: "?j \<le> Suc i"
    using Suc.prems(1) by (intro random_index_le) (simp_all add: unit_interval_def)
  have sw: "mset (xs[Suc i := xs ! ?j, ?j := xs ! Suc i]) = mset xs"
    using j Suc.prems(2) by (simp add: mset_swap)
  have "mset (shuffle_loop i rnd (k + 1) (xs[Suc i := xs ! ?j, ?j := xs ! Suc i])) =
        mset (xs[Suc i := xs ! ?j, ?j := xs ! Suc i])"
    using Suc.prems by (intro Suc.IH) simp_all
  with sw show ?case by (simp add: Let_def)
qed

lemma shuffleArray_mset: "unit_interval rnd \<Longrightarrow> mset (shuffleArray rnd xs) = mset xs"
  by (cases xs) (simp_all add: shuffleArray_def shuffle_loop_mset)

lemma shuffleArray_length: "length (shuffleArray rnd xs) = length xs"
  by (simp add: shuffleArray_def shuffle_loop_length)

lemma shuffle_loop_st_eq:
  "r < length st \<Longrightarrow>
   shuffle_loop_st i rnd k r st = st[r := shuffle_loop i rnd k (st ! r)]"
  by (induction i arbitrary: k st) (simp_all add: Let_def)

lemma shuffleArray_st_eq:
  "shuffleArray_st rnd a st = ((st @ [st ! a])[length st := shuffleArray rnd (st ! a)], length st)"
  by (simp add: shuffleArray_st_def spread_copy_def shuffle_loop_st_eq shuffleArray_def)

lemma unit_interval_half: "unit_interval (\<lambda>k. 1 / 2)"
  by (simp add: unit_interval_def)

text \<open>
  C10. Whatever numbers \<open>Math.random\<close> returns, \<open>shuffleArray\<close> returns a new array (a
  reference that the store did not hold before, so not the one it was given) whose
  elements are those of its argument with the same multiplicities, and so the same
  length; the argument and every other array of the store are left as they were.
\<close>

theorem shuffleArray_permutation:
  assumes "unit_interval rnd" and "a < length st"
  shows "case shuffleArray_st rnd a st of (st', r) \<Rightarrow>
           r = length st \<and> r \<noteq> a \<and> length st' = Suc (length st) \<and>
           (\<forall>b < length st. st' ! b = st ! b) \<and>
           st' ! r = shuffleArray rnd (st ! a) \<and>
           mset (st' ! r) = mset (st ! a) \<and>
           length (st' ! r) = length (st ! a)"
  using assms
  by (simp add: shuffleArray_st_eq shuffleArray_mset shuffleArray_length nth_append)

theorem shuffleArray_permutation_witness:
  "unit_interval (\<lambda>k. 1 / 2) \<and> (0::nat) < length [[''a'', ''b'', ''c'']] \<and>
   shuffleArray_st (\<lambda>k. 1 / 2) 0 [[''a'', ''b'', ''c'']] =
     ([[''a'', ''b'', ''c''], [''a'', ''c'', ''b'']], 1) \<and>
   mset ([[''a'', ''b'', ''c''], [''a'', ''c'', ''b'']] ! 1) = mset ([[''a'', ''b'', ''c'']] ! 0)"
proof -
  have l: "(0::nat) < length [[''a'', ''b'', ''c'']]" by simp
  have e: "shuffleArray_st (\<lambda>k. 1 / 2) 0 [[''a'', ''b'', ''c'']] =
             ([[''a'', ''b'', ''c''], [''a'', ''c'', ''b'']], 1)"
    by code_simp
  have "case shuffleArray_st (\<lambda>k. 1 / 2) 0 [[''a'', ''b'', ''c'']] of (st', r) \<Rightarrow>
           r = length [[''a'', ''b'', ''c'']] \<and> r \<noteq> 0 \<and> length st' = Suc (length [[''a'', ''b'', ''c'']]) \<and>
           (\<forall>b < length [[''a'', ''b'', ''c'']]. st' ! b = [[''a'', ''b'', ''c'']] ! b) \<and>
           st' ! r = shuffleArray (\<lambda>k. 1 / 2) ([[''a'', ''b'', ''c'']] ! 0) \<and>
           mset (st' ! r) = mset ([[''a'', ''b'', ''c'']] ! 0) \<and>
           length (st' ! r) = length ([[''a'', ''b'', ''c'']] ! 0)"
    by (rule shuffleArray_permutation [OF unit_interval_half l])
  then have m: "mset ([[''a'', ''b'', ''c''], [''a'', ''c'', ''b'']] ! 1) = mset ([[''a'', ''b'', ''c'']] ! 0)"
    unfolding e prod.case by blast
  from unit_interval_half l e m show ?thesis by (intro conjI)
qed

section \<open>Properties of the request text\<close>

lemma split_first_found:
  "p \<notin> set a \<Longrightarrow> split_first (p # ps) (a @ p # ps @ b) = Some (a, b)"
  by (induction a) auto

lemma GetSubstitution_plain:
  "CHR ''$'' \<notin> set r \<Longrightarrow> GetSubstitution m b a r = r"
  by (induction m b a r rule: GetSubstitution.induct) auto

lemma replace_js_found:
  "p \<notin> set a \<Longrightarrow> CHR ''$'' \<notin> set r \<Longrightarrow>
   replace_js (p # ps) r (a @ (p # ps) @ b) = a @ r @ b"
  by (simp add: replace_js_def split_first_found GetSubstitution_plain)

lemma fetch_request_content:
  assumes "CHR ''$'' \<notin> set (prompt_cat c)" "CHR ''{'' \<notin> set (prompt_cat c)"
    and "CHR ''$'' \<notin> set (exclusionText used)"
  shows "content (fetch_request c used) =
     ''Generate exactly 60 '' @ prompt_cat c @ '' for a game of charades.\<newline>'' @
     ''Format: One item per line, no numbers, no extra text.\<newline>'' @
     ''Keep items simple, and don't only include the most popular items (otherwise, it's the same every time).\<newline>'' @
     ''Items should be easy to describe or act out.\<newline>'' @
     ''Do not include any introductory text or explanations.\<newline>'' @
     exclusionText used"
proof -
  let ?tail = "'' for a game of charades.\<newline>'' @
     ''Format: One item per line, no numbers, no extra text.\<newline>'' @
     ''Keep items simple, and don't only include the most popular items (otherwise, it's the same every time).\<newline>'' @
     ''Items should be easy to describe or act out.\<newline>'' @
     ''Do not include any introductory text or explanations.\<newline>''"
  have b: "BASE_PROMPT = ''Generate exactly '' @ ''{count}'' @ ('' '' @ ''{category}'' @ ?tail @ ''{exclusions}'')"
    by (simp add: BASE_PROMPT_def)
  have 1: "replace_js ''{count}'' ''60'' BASE_PROMPT =
           ''Generate exactly 60 '' @ ''{category}'' @ (?tail @ ''{exclusions}'')"
    unfolding b by (subst replace_js_found) simp_all
  have 2: "replace_js ''{category}'' (prompt_cat c) (replace_js ''{count}'' ''60'' BASE_PROMPT) =
           (''Generate exactly 60 '' @ prompt_cat c @ ?tail) @ ''{exclusions}'' @ []"
    unfolding 1 using assms(1) by (subst replace_js_found) simp_all
  have 3: "replace_js ''{exclusions}'' (exclusionText used)
             (replace_js ''{category}'' (prompt_cat c) (replace_js ''{count}'' ''60'' BASE_PROMPT)) =
           (''Generate exactly 60 '' @ prompt_cat c @ ?tail) @ exclusionText used @ []"
    unfolding 2 using assms(2,3) by (subst replace_js_found) simp_all
  show ?thesis
    unfolding fetch_request_def using 3 by simp
qed

section \<open>Replenishment\<close>

lemma fetchMorePrompts_effect_loading:
  "isLoadingMore (gameState h) \<Longrightarrow> fetchMorePrompts_effect h = h"
  by (simp add: fetchMorePrompts_effect_def)

text \<open>
  What a replenishment does. In a state of \<open>GameScreen\<close> with ten or fewer prompts left
  (\<open>availablePrompts.length - currentPromptIndex \<le> 10\<close>) and no replenishment in flight, the
  effect starts exactly one request: for the prompt template of the \<open>category\<close> prop, with
  the count 60, and with the text made of all \<open>usedPrompts\<close> joined by newlines (empty
  when nothing was used) as the replacement of \<open>{exclusions}\<close>; when neither the template
  nor the used prompts hold a character that \<open>replace\<close> treats specially, the message ends
  with that text. Nothing else changes. While the flag is set the effect does nothing,
  also after further judgments. When the request is answered, the lines of the answer
  are shuffled and appended after all the prompts queued so far.
\<close>

lemma fetchMorePrompts_replenishment:
  assumes low: "int (length (availablePrompts (gameState g))) - int (currentPromptIndex g) \<le> 10"
    and idle: "\<not> isLoadingMore (gameState g)" "inflight g = []"
    and rnd: "unit_interval rnd"
  shows "let g' = fetchMorePrompts_effect g;
             g'' = fetchMorePrompts_settle (Resolved txt) rnd g'
         in inflight g' =
              [\<lparr>model = ''gpt-4o-mini'',
                content =
                  replace_js ''{exclusions}''
                    (if usedPrompts (gameState g) = [] then []
                     else ''\<newline>Do not include any of these items:\<newline>'' @
                          join ''\<newline>'' (usedPrompts (gameState g)))
                    (replace_js ''{category}'' (prompt_cat (category g))
                       (replace_js ''{count}'' ''60'' BASE_PROMPT)),
                temperature = 2\<rparr>] \<and>
            isLoadingMore (gameState g') \<and>
            g'\<lparr>gameState := (gameState g')\<lparr>isLoadingMore := False\<rparr>, inflight := []\<rparr> = g \<and>
            (\<forall>h. isLoadingMore (gameState h) \<longrightarrow> fetchMorePrompts_effect h = h) \<and>
            fetchMorePrompts_effect g' = g' \<and>
            fetchMorePrompts_effect (handleResult c g') = handleResult c g' \<and>
            (CHR ''$'' \<notin> set (prompt_cat (category g)) \<and> CHR ''{'' \<notin> set (prompt_cat (category g)) \<and>
             CHR ''$'' \<notin> set (exclusionText (usedPrompts (gameState g))) \<longrightarrow>
             content (hd (inflight g')) =
               ''Generate exactly 60 '' @ prompt_cat (category g) @ '' for a game of charades.\<newline>'' @
               ''Format: One item per line, no numbers, no extra text.\<newline>'' @
               ''Keep items simple, and don't only include the most popular items (otherwise, it's the same every time).\<newline>'' @
               ''Items should be easy to describe or act out.\<newline>'' @
               ''Do not include any introductory text or explanations.\<newline>'' @
               exclusionText (usedPrompts (gameState g))) \<and>
            availablePrompts (gameState g'') =
              availablePrompts (gameState g) @ shuffleArray rnd (parse_lines txt) \<and>
            mset (shuffleArray rnd (parse_lines txt)) = mset (parse_lines txt) \<and>
            \<not> isLoadingMore (gameState g'') \<and> inflight g'' = [] \<and>
            currentPromptIndex g'' = currentPromptIndex g \<and> results g'' = results g \<and>
            usedPrompts (gameState g'') = usedPrompts (gameState g)"
proof -
  let ?g' = "fetchMorePrompts_effect g"
  have e: "?g' = g\<lparr>gameState := (gameState g)\<lparr>isLoadingMore := True\<rparr>,
                    inflight := [fetch_request (category g) (usedPrompts (gameState g))]\<rparr>"
    using low idle by (simp add: fetchMorePrompts_effect_def)
  have 1: "inflight ?g' =
              [\<lparr>model = ''gpt-4o-mini'',
                content =
                  replace_js ''{exclusions}''
                    (if usedPrompts (gameState g) = [] then []
                     else ''\<newline>Do not include any of these items:\<newline>'' @
                          join ''\<newline>'' (usedPrompts (gameState g)))
                    (replace_js ''{category}'' (prompt_cat (category g))
                       (replace_js ''{count}'' ''60'' BASE_PROMPT)),
                temperature = 2\<rparr>]"
    unfolding e by (simp add: fetch_request_def exclusionText_def)
  have 2: "isLoadingMore (gameState ?g')" unfolding e by simp
  have 3: "?g'\<lparr>gameState := (gameState ?g')\<lparr>isLoadingMore := False\<rparr>, inflight := []\<rparr> = g"
    unfolding e using idle by simp
  have 4: "fetchMorePrompts_effect ?g' = ?g'"
    using 2 by (rule fetchMorePrompts_effect_loading)
  have "isLoadingMore (gameState (handleResult c ?g'))"
    using 2 by (simp add: handleResult_def Let_def)
  then have 5: "fetchMorePrompts_effect (handleResult c ?g') = handleResult c ?g'"
    by (rule fetchMorePrompts_effect_loading)
  have 6: "CHR ''$'' \<notin> set (prompt_cat (category g)) \<and> CHR ''{'' \<notin> set (prompt_cat (category g)) \<and>
             CHR ''$'' \<notin> set (exclusionText (usedPrompts (gameState g))) \<longrightarrow>
             content (hd (inflight ?g')) =
               ''Generate exactly 60 '' @ prompt_cat (category g) @ '' for a game of charades.\<newline>'' @
               ''Format: One item per line, no numbers, no extra text.\<newline>'' @
               ''Keep items simple, and don't only include the most popular items (otherwise, it's the same every time).\<newline>'' @
               ''Items should be easy to describe or act out.\<newline>'' @
               ''Do not include any introductory text or explanations.\<newline>'' @
               exclusionText (usedPrompts (gameState g))"
    unfolding e using fetch_request_content [of "category g" "usedPrompts (gameState g)"] by simp
  let ?g'' = "fetchMorePrompts_settle (Resolved txt) rnd ?g'"
  have s: "?g'' = g\<lparr>gameState := (gameState g)
                       \<lparr>availablePrompts := availablePrompts (gameState g) @ shuffleArray rnd (parse_lines txt),
                        isLoadingMore := False\<rparr>,
                     inflight := []\<rparr>"
    unfolding e by (simp add: fetchMorePrompts_settle_def Let_def)
  have 7: "availablePrompts (gameState ?g'') =
              availablePrompts (gameState g) @ shuffleArray rnd (parse_lines txt)"
    unfolding s by simp
  have 8: "mset (shuffleArray rnd (parse_lines txt)) = mset (parse_lines txt)"
    using rnd by (rule shuffleArray_mset)
  have 9: "\<not> isLoadingMore (gameState ?g'') \<and> inflight ?g'' = [] \<and>
            currentPromptIndex ?g'' = currentPromptIndex g \<and> results ?g'' = results g \<and>
            usedPrompts (gameState ?g'') = usedPrompts (gameState g)"
    unfolding s by simp
  show ?thesis
    unfolding Let_def using 1 2 3 4 5 6 7 8 9 fetchMorePrompts_effect_loading by blast
qed

text \<open>
  C1 does not hold of \<open>fetchMorePrompts\<close> in every state. The text of the request is
  built with \<open>String.prototype.replace\<close>, which expands the patterns \<open>$$\<close>, \<open>$&\<close>, \<open>$`\<close>
  and \<open>$'\<close> of the text it inserts. A used prompt that holds such a pattern is not sent as
  it is. In a round that starts with the prompts \<open>$&\<close> and Dog, the request that follows
  the first judgment names \<open>{exclusions}\<close> as the item to leave out, not \<open>$&\<close>; and the used
  prompt \<open>Cash $$\<close> is sent as \<open>Cash $\<close>.
\<close>

theorem fetchMorePrompts_exclusions_rewritten:
  "map_option (\<lambda>g. (usedPrompts (gameState g), inflight g))
     (screen (run [Click True, Settle Rejected (\<lambda>k. 0)]
        (App_running (1 / 2) [animals] [''$&'', ''Dog''] []))) =
     Some ([Some ''$&''], [fetch_request animals [Some ''$&'']]) \<and>
   exclusionText [Some ''$&''] = ''\<newline>Do not include any of these items:\<newline>$&'' \<and>
   content (fetch_request animals [Some ''$&'']) =
     ''Generate exactly 60 animals for a game of charades.\<newline>'' @
     ''Format: One item per line, no numbers, no extra text.\<newline>'' @
     ''Keep items simple, and don't only include the most popular items (otherwise, it's the same every time).\<newline>'' @
     ''Items should be easy to describe or act out.\<newline>'' @
     ''Do not include any introductory text or explanations.\<newline>'' @
     ''\<newline>Do not include any of these items:\<newline>{exclusions}'' \<and>
   exclusionText [Some ''Cash $$'', Some ''Dog''] =
     ''\<newline>Do not include any of these items:\<newline>Cash $$\<newline>Dog'' \<and>
   content (fetch_request animals [Some ''Cash $$'', Some ''Dog'']) =
     ''Generate exactly 60 animals for a game of charades.\<newline>'' @
     ''Format: One item per line, no numbers, no extra text.\<newline>'' @
     ''Keep items simple, and don't only include the most popular items (otherwise, it's the same every time).\<newline>'' @
     ''Items should be easy to describe or act out.\<newline>'' @
     ''Do not include any introductory text or explanations.\<newline>'' @
     ''\<newline>Do not include any of these items:\<newline>Cash $\<newline>Dog''"
  by code_simp

section \<open>The hold at the last prompt\<close>

lemma handleResult_hold:
  assumes "isLoadingMore (gameState g)"
    and "currentPromptIndex g + 1 = length (availablePrompts (gameState g))"
  shows "handleResult c g =
           g\<lparr>results := results g @
                 [\<lparr>prompt = Some (availablePrompts (gameState g) ! currentPromptIndex g), correct = c\<rparr>],
             gameState := (gameState g)
               \<lparr>usedPrompts := usedPrompts (gameState g) @
                  [Some (availablePrompts (gameState g) ! currentPromptIndex g)]\<rparr>\<rparr>"
  using assms by (simp add: handleResult_def Let_def nth_js_def)

lemma GameScreen_effects_running_loading:
  "\<not> showCountdown g \<Longrightarrow> isLoadingMore (gameState g) \<Longrightarrow> GameScreen_effects g = g"
  by (simp add: GameScreen_effects_def Countdown_effect_def fetchMorePrompts_effect_def)

lemma step_Click_hold:
  assumes "screen s = Some g" "\<not> showCountdown g" "isLoadingMore (gameState g)"
    and "currentPromptIndex g + 1 = length (availablePrompts (gameState g))"
  shows "screen (step (Click b) s) = Some (handleResult b g)"
    and "\<not> showCountdown (handleResult b g)"
    and "isLoadingMore (gameState (handleResult b g))"
    and "currentPromptIndex (handleResult b g) = currentPromptIndex g"
    and "availablePrompts (gameState (handleResult b g)) = availablePrompts (gameState g)"
    and "inflight (handleResult b g) = inflight g"
    and "length (results (handleResult b g)) = Suc (length (results g))"
proof -
  note h = handleResult_hold [OF assms(3,4), of b]
  show 2: "\<not> showCountdown (handleResult b g)" unfolding h using assms(2) by simp
  show 3: "isLoadingMore (gameState (handleResult b g))" unfolding h using assms(3) by simp
  show "screen (step (Click b) s) = Some (handleResult b g)"
    using assms(1,2) GameScreen_effects_running_loading [OF 2 3] by (simp add: step_def)
  show "currentPromptIndex (handleResult b g) = currentPromptIndex g" unfolding h by simp
  show "availablePrompts (gameState (handleResult b g)) = availablePrompts (gameState g)"
    unfolding h by simp
  show "inflight (handleResult b g) = inflight g" unfolding h by simp
  show "length (results (handleResult b g)) = Suc (length (results g))" unfolding h by simp
qed

lemma run_Clicks_hold:
  assumes "screen s = Some g" "\<not> showCountdown g" "isLoadingMore (gameState g)"
    and "currentPromptIndex g + 1 = length (availablePrompts (gameState g))"
  shows "\<exists>g1. screen (run (map Click bs) s) = Some g1 \<and> \<not> showCountdown g1 \<and>
           isLoadingMore (gameState g1) \<and> currentPromptIndex g1 = currentPromptIndex g \<and>
           availablePrompts (gameState g1) = availablePrompts (gameState g) \<and>
           inflight g1 = inflight g \<and> length (results g1) = length (results g) + length bs"
  using assms
proof (induction bs arbitrary: s g)
  case Nil
  then show ?case by simp
next
  case (Cons b bs)
  note st = step_Click_hold [OF Cons.prems, of b]
  have "\<exists>g1. screen (run (map Click bs) (step (Click b) s)) = Some g1 \<and> \<not> showCountdown g1 \<and>
           isLoadingMore (gameState g1) \<and>
           currentPromptIndex g1 = currentPromptIndex (handleResult b g) \<and>
           availablePrompts (gameState g1) = availablePrompts (gameState (handleResult b g)) \<and>
           inflight g1 = inflight (handleResult b g) \<and>
           length (results g1) = length (results (handleResult b g)) + length bs"
    using Cons.prems(4) by (intro Cons.IH [OF st(1) st(2) st(3)]) (simp add: st(4) st(5))
  then show ?case by (simp add: st)
qed

lemma settle_Resolved_fields:
  assumes "inflight g \<noteq> []"
  shows "currentPromptIndex (GameScreen_effects (fetchMorePrompts_settle (Resolved txt) rnd g)) =
           currentPromptIndex g"
    and "availablePrompts (gameState (GameScreen_effects (fetchMorePrompts_settle (Resolved txt) rnd g))) =
           availablePrompts (gameState g) @ shuffleArray rnd (parse_lines txt)"
    and "showCountdown g = False \<Longrightarrow>
         showCountdown (GameScreen_effects (fetchMorePrompts_settle (Resolved txt) rnd g)) = False"
  using assms
  by (cases "inflight g";
      simp add: GameScreen_effects_def Countdown_effect_def fetchMorePrompts_effect_def
        fetchMorePrompts_settle_def Let_def)+

lemma click_advances:
  assumes "currentPromptIndex g + 1 < length (availablePrompts (gameState g))"
  shows "currentPromptIndex (GameScreen_effects (handleResult c g)) = currentPromptIndex g + 1"
    and "availablePrompts (gameState (GameScreen_effects (handleResult c g))) =
           availablePrompts (gameState g)"
  using assms
  by (simp_all add: GameScreen_effects_def Countdown_effect_def fetchMorePrompts_effect_def
        handleResult_def Let_def)

text \<open>
  C3. When the cursor is on the last prompt of \<open>availablePrompts\<close> while a replenishment is
  in flight, judging that prompt, any number of times, leaves the cursor where it is,
  inside the list. Once new prompts have arrived, the next judgment moves the cursor by
  one, to the first of the new prompts, again inside the list.
\<close>

theorem hold_at_last_prompt:
  assumes "screen s = Some g" and "\<not> showCountdown g"
    and "isLoadingMore (gameState g)" and "inflight g \<noteq> []"
    and "currentPromptIndex g + 1 = length (availablePrompts (gameState g))"
    and "parse_lines txt \<noteq> []"
  shows "let s1 = run (map Click bs) s;
             s2 = step (Settle (Resolved txt) rnd) s1;
             s3 = step (Click c) s2;
             q = availablePrompts (gameState g);
             new = shuffleArray rnd (parse_lines txt)
         in map_option currentPromptIndex (screen s1) = Some (currentPromptIndex g) \<and>
            map_option (availablePrompts \<circ> gameState) (screen s1) = Some q \<and>
            currentPromptIndex g < length q \<and>
            map_option (length \<circ> results) (screen s1) = Some (length (results g) + length bs) \<and>
            map_option currentPromptIndex (screen s2) = Some (currentPromptIndex g) \<and>
            map_option (availablePrompts \<circ> gameState) (screen s2) = Some (q @ new) \<and>
            map_option currentPromptIndex (screen s3) = Some (currentPromptIndex g + 1) \<and>
            map_option (availablePrompts \<circ> gameState) (screen s3) = Some (q @ new) \<and>
            currentPromptIndex g + 1 < length (q @ new) \<and>
            nth_js (q @ new) (currentPromptIndex g + 1) = Some (hd new)"
proof -
  let ?q = "availablePrompts (gameState g)"
  let ?new = "shuffleArray rnd (parse_lines txt)"
  obtain g1 where g1: "screen (run (map Click bs) s) = Some g1" "\<not> showCountdown g1"
      "isLoadingMore (gameState g1)" "currentPromptIndex g1 = currentPromptIndex g"
      "availablePrompts (gameState g1) = ?q" "inflight g1 = inflight g"
      "length (results g1) = length (results g) + length bs"
    using run_Clicks_hold [OF assms(1,2,3,5), of bs] by blast
  have i1: "inflight g1 \<noteq> []" using g1(6) assms(4) by simp
  let ?g2 = "GameScreen_effects (fetchMorePrompts_settle (Resolved txt) rnd g1)"
  have s2: "screen (step (Settle (Resolved txt) rnd) (run (map Click bs) s)) = Some ?g2"
    using g1(1) by (simp add: step_def)
  have g2: "currentPromptIndex ?g2 = currentPromptIndex g"
      "availablePrompts (gameState ?g2) = ?q @ ?new" "\<not> showCountdown ?g2"
    using settle_Resolved_fields [OF i1, of "txt" rnd] g1(2,4,5) by simp_all
  have new: "?new \<noteq> []"
    using assms(6) shuffleArray_length [of rnd "parse_lines txt"] by (metis length_0_conv)
  then have len: "currentPromptIndex g + 1 < length (?q @ ?new)"
    using assms(5) by (cases ?new) simp_all
  let ?g3 = "GameScreen_effects (handleResult c ?g2)"
  have s3: "screen (step (Click c) (step (Settle (Resolved txt) rnd) (run (map Click bs) s))) = Some ?g3"
    using s2 g2(3) by (simp add: step_def)
  have adv: "currentPromptIndex ?g2 + 1 < length (availablePrompts (gameState ?g2))"
    using len g2 by simp
  have g3: "currentPromptIndex ?g3 = currentPromptIndex g + 1"
      "availablePrompts (gameState ?g3) = ?q @ ?new"
    using click_advances [OF adv, of c] g2 by simp_all
  have nth: "nth_js (?q @ ?new) (currentPromptIndex g + 1) = Some (hd ?new)"
    using len new assms(5) by (simp add: nth_js_def nth_append hd_conv_nth)
  have lt: "currentPromptIndex g < length ?q" using assms(5) by simp
  show ?thesis
    unfolding Let_def using g1 s2 g2 s3 g3 len nth lt by simp
qed

theorem hold_at_last_prompt_witness:
  "screen (App_running (1 / 2) [animals] [''Cat''] []) =
     Some (the (screen (App_running (1 / 2) [animals] [''Cat''] []))) \<and>
   \<not> showCountdown (the (screen (App_running (1 / 2) [animals] [''Cat''] []))) \<and>
   isLoadingMore (gameState (the (screen (App_running (1 / 2) [animals] [''Cat''] [])))) \<and>
   inflight (the (screen (App_running (1 / 2) [animals] [''Cat''] []))) \<noteq> [] \<and>
   currentPromptIndex (the (screen (App_running (1 / 2) [animals] [''Cat''] []))) + 1 =
     length (availablePrompts (gameState (the (screen (App_running (1 / 2) [animals] [''Cat''] []))))) \<and>
   parse_lines (Some ''Dog\<newline>Emu'') \<noteq> [] \<and>
   map_option currentPromptIndex (screen (run (map Click [True, False])
     (App_running (1 / 2) [animals] [''Cat''] []))) = Some 0 \<and>
   map_option currentPromptIndex (screen (step (Click True)
     (step (Settle (Resolved (Some ''Dog\<newline>Emu'')) (\<lambda>k. 1 / 2))
       (run (map Click [True, False]) (App_running (1 / 2) [animals] [''Cat''] []))))) = Some (0 + 1) \<and>
   map_option (availablePrompts \<circ> gameState) (screen (step (Click True)
     (step (Settle (Resolved (Some ''Dog\<newline>Emu'')) (\<lambda>k. 1 / 2))
       (run (map Click [True, False]) (App_running (1 / 2) [animals] [''Cat''] []))))) =
     Some ([''Cat''] @ [''Dog'', ''Emu''])"
proof -
  let ?s = "App_running (1 / 2) [animals] [''Cat''] []"
  let ?g = "the (screen ?s)"
  have h: "screen ?s = Some ?g \<and> \<not> showCountdown ?g \<and> isLoadingMore (gameState ?g) \<and>
     inflight ?g \<noteq> [] \<and>
     currentPromptIndex ?g + 1 = length (availablePrompts (gameState ?g)) \<and>
     parse_lines (Some ''Dog\<newline>Emu'') \<noteq> []"
    by code_simp
  have h1: "screen ?s = Some ?g" and h2: "\<not> showCountdown ?g"
    and h3: "isLoadingMore (gameState ?g)" and h4: "inflight ?g \<noteq> []"
    and h5: "currentPromptIndex ?g + 1 = length (availablePrompts (gameState ?g))"
    and h6: "parse_lines (Some ''Dog\<newline>Emu'') \<noteq> []"
    using h by blast+
  have v: "currentPromptIndex ?g = 0" "availablePrompts (gameState ?g) = [''Cat'']"
    "shuffleArray (\<lambda>k. 1 / 2) (parse_lines (Some ''Dog\<newline>Emu'')) = [''Dog'', ''Emu'']"
    by code_simp+
  note t = hold_at_last_prompt [OF h1 h2 h3 h4 h5 h6, of "[True, False]" "\<lambda>k. 1 / 2" True,
      unfolded Let_def v]
  from t have c1: "map_option currentPromptIndex (screen (run (map Click [True, False]) ?s)) = Some 0"
    by blast
  from t have c2: "map_option currentPromptIndex (screen (step (Click True)
     (step (Settle (Resolved (Some ''Dog\<newline>Emu'')) (\<lambda>k. 1 / 2))
       (run (map Click [True, False]) ?s)))) = Some (0 + 1)"
    by blast
  from t have c3: "map_option (availablePrompts \<circ> gameState) (screen (step (Click True)
     (step (Settle (Resolved (Some ''Dog\<newline>Emu'')) (\<lambda>k. 1 / 2))
       (run (map Click [True, False]) ?s)))) = Some ([''Cat''] @ [''Dog'', ''Emu''])"
    by blast
  from h1 h2 h3 h4 h5 h6 c1 c2 c3 show ?thesis
    by (intro conjI)
qed

section \<open>The clock of a round\<close>

lemma run_unmounted: "screen s = None \<Longrightarrow> run es s = s"
  by (induction es) (simp_all add: step_def)

lemma GameScreen_effects_fields:
  "timeLeft (GameScreen_effects g) = timeLeft g"
  "results (GameScreen_effects g) = results g"
  "currentPromptIndex (GameScreen_effects g) = currentPromptIndex g"
  "availablePrompts (gameState (GameScreen_effects g)) = availablePrompts (gameState g)"
  "usedPrompts (gameState (GameScreen_effects g)) = usedPrompts (gameState g)"
  "category (GameScreen_effects g) = category g"
  "\<not> showCountdown g \<Longrightarrow> \<not> showCountdown (GameScreen_effects g)"
  by (simp_all add: GameScreen_effects_def Countdown_effect_def fetchMorePrompts_effect_def)

lemma handleResult_fields:
  "timeLeft (handleResult c g) = timeLeft g"
  "showCountdown (handleResult c g) = showCountdown g"
  "results (handleResult c g) =
     results g @ [\<lparr>prompt = nth_js (availablePrompts (gameState g)) (currentPromptIndex g), correct = c\<rparr>]"
  "usedPrompts (gameState (handleResult c g)) =
     usedPrompts (gameState g) @ [nth_js (availablePrompts (gameState g)) (currentPromptIndex g)]"
  "availablePrompts (gameState (handleResult c g)) = availablePrompts (gameState g)"
  "isLoadingMore (gameState (handleResult c g)) = isLoadingMore (gameState g)"
  "inflight (handleResult c g) = inflight g"
  by (simp_all add: handleResult_def Let_def)

lemma fetchMorePrompts_settle_fields:
  "timeLeft (fetchMorePrompts_settle completion rnd g) = timeLeft g"
  "showCountdown (fetchMorePrompts_settle completion rnd g) = showCountdown g"
  "results (fetchMorePrompts_settle completion rnd g) = results g"
  "currentPromptIndex (fetchMorePrompts_settle completion rnd g) = currentPromptIndex g"
  "usedPrompts (gameState (fetchMorePrompts_settle completion rnd g)) = usedPrompts (gameState g)"
  by (simp_all add: fetchMorePrompts_settle_def Let_def split: list.split Completion.split)

text \<open>One step of a running round: either the clock ends it, or the screen stays mounted.\<close>

lemma step_running:
  assumes "screen s = Some g" "\<not> showCountdown g"
  shows "e = TimerTick \<and> timeLeft g \<le> 1 \<and>
           step e s = (endGame (results g) s)\<lparr>screen := None\<rparr> \<or>
         (\<not> (e = TimerTick \<and> timeLeft g \<le> 1) \<and>
          (\<exists>g'. screen (step e s) = Some g' \<and>
             app_gameState (step e s) = app_gameState s \<and>
             onGameEnd_calls (step e s) = onGameEnd_calls s \<and>
             app_results (step e s) = app_results s \<and>
             prompts (step e s) = prompts s \<and> \<not> showCountdown g' \<and>
             timeLeft g' = (if e = TimerTick then timeLeft g - 1 else timeLeft g) \<and>
             results g' = (case e of Click c \<Rightarrow>
                 results g @ [\<lparr>prompt = nth_js (availablePrompts (gameState g)) (currentPromptIndex g),
                               correct = c\<rparr>]
               | other \<Rightarrow> results g)))"
proof (cases e)
  case CountdownTimeout
  then show ?thesis using assms by (simp add: step_def)
next
  case TimerTick
  show ?thesis
  proof (cases "timeLeft g \<le> 1")
    case True
    then show ?thesis
      using assms TimerTick
      by (simp add: step_def timer_tick_def render_def endGame_def split: option.split)
  next
    case False
    then show ?thesis
      using assms TimerTick
      by (simp add: step_def timer_tick_def GameScreen_effects_fields)
  qed
next
  case (Click c)
  then show ?thesis
    using assms by (simp add: step_def GameScreen_effects_fields handleResult_fields)
next
  case (Settle completion rnd)
  then show ?thesis
    using assms by (simp add: step_def GameScreen_effects_fields fetchMorePrompts_settle_fields)
qed


lemma clock_run:
  assumes "screen s = Some g" "\<not> showCountdown g" "timeLeft g = of_nat n" "1 \<le> n"
    and "app_gameState s = PhasePlaying"
  shows "(ticks es < n \<longrightarrow>
            (\<exists>g'. screen (run es s) = Some g' \<and> timeLeft g' = of_nat (n - ticks es) \<and>
                  \<not> showCountdown g' \<and>
                  map correct (results g') = map correct (results g) @ clicks es) \<and>
            app_gameState (run es s) = PhasePlaying \<and>
            onGameEnd_calls (run es s) = onGameEnd_calls s) \<and>
         (n \<le> ticks es \<longrightarrow>
            app_gameState (run es s) = PhaseEnd \<and> screen (run es s) = None \<and>
            onGameEnd_calls (run es s) = onGameEnd_calls s @ [app_results (run es s)] \<and>
            map_option results (screen (run (until_tick n es) s)) = Some (app_results (run es s)) \<and>
            map correct (app_results (run es s)) = map correct (results g) @ clicks (until_tick n es))"
  using assms
proof (induction es arbitrary: s g n)
  case Nil
  then show ?case by simp
next
  case (Cons e es)
  note sr = step_running [OF Cons.prems(1,2), of e]
  show ?case
  proof (cases "e = TimerTick \<and> timeLeft g \<le> 1")
    case True
    then have n1: "n = 1" using Cons.prems(3,4) by simp
    from True sr have st: "step e s = (endGame (results g) s)\<lparr>screen := None\<rparr>" by blast
    have r: "run (e # es) s = (endGame (results g) s)\<lparr>screen := None\<rparr>"
      by (simp add: st run_unmounted)
    show ?thesis
      unfolding r using True n1 Cons.prems(1) by (simp add: endGame_def)
  next
    case False
    with sr obtain g' where g': "screen (step e s) = Some g'"
        "app_gameState (step e s) = app_gameState s"
        "onGameEnd_calls (step e s) = onGameEnd_calls s"
        "\<not> showCountdown g'"
        "timeLeft g' = (if e = TimerTick then timeLeft g - 1 else timeLeft g)"
        "results g' = (case e of Click c \<Rightarrow>
                 results g @ [\<lparr>prompt = nth_js (availablePrompts (gameState g)) (currentPromptIndex g),
                               correct = c\<rparr>]
               | other \<Rightarrow> results g)"
      by blast
    let ?n = "if e = TimerTick then n - 1 else n"
    have n': "1 \<le> ?n" using False Cons.prems(3,4) by (cases "n = 1") auto
    have tl: "timeLeft g' = of_nat ?n" using g'(5) Cons.prems(3,4) by simp
    have ph: "app_gameState (step e s) = PhasePlaying" using g'(2) Cons.prems(5) by simp
    note ih = Cons.IH [OF g'(1) g'(4) tl n' ph]
    show ?thesis
    proof (cases e)
      case CountdownTimeout
      then show ?thesis using ih g' by simp
    next
      case TimerTick
      have "n \<noteq> 1" using False TimerTick Cons.prems(3) by auto
      then have "\<not> n \<le> 1" "Suc (ticks es) < n \<longleftrightarrow> ticks es < n - 1"
        "n \<le> Suc (ticks es) \<longleftrightarrow> n - 1 \<le> ticks es" "n - Suc (ticks es) = n - 1 - ticks es"
        using Cons.prems(4) by auto
      then show ?thesis using ih g' TimerTick by simp
    next
      case (Click c)
      then show ?thesis using ih g' by simp
    next
      case (Settle completion rnd)
      then show ?thesis using ih g' by simp
    qed
  qed
qed

lemma render_app_gameState: "app_gameState (render s) = app_gameState s"
  by (simp add: render_def split: Phase.split option.split list.split)

lemma App_playing_fields:
  "app_gameState (App_playing d cats ps pcs) = PhasePlaying"
  "onGameEnd_calls (App_playing d cats ps pcs) = []"
  "prompts (App_playing d cats ps pcs) = ps"
  "screen (App_playing d (c # cs) ps pcs) =
     Some (GameScreen_effects (GameScreen_mount d ps c pcs))"
  by (simp_all add: App_playing_def App_mount_def render_def split: list.split)

lemma mounted_fields:
  "showCountdown (GameScreen_effects (GameScreen_mount d ps c pcs))"
  "countdown (GameScreen_effects (GameScreen_mount d ps c pcs)) = 3"
  "timeLeft (GameScreen_effects (GameScreen_mount d ps c pcs)) = d * 60"
  "results (GameScreen_effects (GameScreen_mount d ps c pcs)) = []"
  by (simp_all add: GameScreen_effects_def Countdown_effect_def fetchMorePrompts_effect_def
        GameScreen_mount_def)

lemma step_CountdownTimeout:
  assumes "screen s = Some g" "showCountdown g" "countdown g = Suc m"
  shows "\<exists>g'. screen (step CountdownTimeout s) = Some g' \<and> countdown g' = m \<and>
           showCountdown g' = (m \<noteq> 0) \<and> timeLeft g' = timeLeft g \<and> results g' = results g \<and>
           app_gameState (step CountdownTimeout s) = app_gameState s \<and>
           onGameEnd_calls (step CountdownTimeout s) = onGameEnd_calls s"
  using assms
  by (simp add: step_def GameScreen_effects_def Countdown_effect_def fetchMorePrompts_effect_def
        Countdown_timeout_def)

lemma App_running_fields:
  "\<exists>g. screen (App_running d (c # cs) ps pcs) = Some g \<and> \<not> showCountdown g \<and>
        timeLeft g = d * 60 \<and> results g = [] \<and>
        app_gameState (App_running d (c # cs) ps pcs) = PhasePlaying \<and>
        onGameEnd_calls (App_running d (c # cs) ps pcs) = []"
proof -
  let ?s0 = "App_playing d (c # cs) ps pcs"
  let ?g0 = "GameScreen_effects (GameScreen_mount d ps c pcs)"
  have s0: "screen ?s0 = Some ?g0" by (rule App_playing_fields)
  obtain g1 where g1: "screen (step CountdownTimeout ?s0) = Some g1" "countdown g1 = 2"
      "showCountdown g1" "timeLeft g1 = d * 60" "results g1 = []"
      "app_gameState (step CountdownTimeout ?s0) = PhasePlaying"
      "onGameEnd_calls (step CountdownTimeout ?s0) = []"
    using step_CountdownTimeout [OF s0 mounted_fields(1), of 2]
    by (auto simp add: mounted_fields App_playing_fields)
  let ?s1 = "step CountdownTimeout ?s0"
  obtain g2 where g2: "screen (step CountdownTimeout ?s1) = Some g2" "countdown g2 = 1"
      "showCountdown g2" "timeLeft g2 = d * 60" "results g2 = []"
      "app_gameState (step CountdownTimeout ?s1) = PhasePlaying"
      "onGameEnd_calls (step CountdownTimeout ?s1) = []"
    using step_CountdownTimeout [OF g1(1) g1(3), of 1] g1
    by (auto simp add: numeral_2_eq_2)
  let ?s2 = "step CountdownTimeout ?s1"
  obtain g3 where g3: "screen (step CountdownTimeout ?s2) = Some g3"
      "\<not> showCountdown g3" "timeLeft g3 = d * 60" "results g3 = []"
      "app_gameState (step CountdownTimeout ?s2) = PhasePlaying"
      "onGameEnd_calls (step CountdownTimeout ?s2) = []"
    using step_CountdownTimeout [OF g2(1) g2(3), of 0] g2
    by auto
  show ?thesis
    unfolding App_running_def using g3 by simp
qed

text \<open>
  C5. Take a round whose duration \<open>d\<close> is a whole number \<open>n \<ge> 1\<close> of seconds (all six
  durations of the setup form are), once its countdown is over, and let any events
  follow. As long as the interval of the clock has fired fewer than \<open>n\<close> times, the round
  is being played, \<open>timeLeft\<close> is \<open>n\<close> less the number of firings, the results hold one
  judgment per click, in the order of the clicks, and \<open>onGameEnd\<close> has not been called.
  From the \<open>n\<close>-th firing on the round has ended, and \<open>onGameEnd\<close> has been called exactly
  once, with the results accumulated before that firing, in the order of the clicks.
\<close>

theorem round_clock:
  assumes "cats \<noteq> []" and "d * 60 = of_nat n" and "1 \<le> n"
  shows "let s0 = App_running d cats ps pcs; s = run es s0
         in (ticks es < n \<longrightarrow>
               app_gameState s = PhasePlaying \<and>
               map_option timeLeft (screen s) = Some (of_nat (n - ticks es)) \<and>
               map_option (map correct \<circ> results) (screen s) = Some (clicks es) \<and>
               onGameEnd_calls s = []) \<and>
            (n \<le> ticks es \<longrightarrow>
               app_gameState s = PhaseEnd \<and> screen s = None \<and>
               onGameEnd_calls s = [app_results s] \<and>
               map_option results (screen (run (until_tick n es) s0)) = Some (app_results s) \<and>
               map correct (app_results s) = clicks (until_tick n es))"
proof -
  obtain c cs where cats: "cats = c # cs" using assms(1) by (cases cats) auto
  obtain g where g: "screen (App_running d cats ps pcs) = Some g" "\<not> showCountdown g"
      "timeLeft g = of_nat n" "results g = []"
      "app_gameState (App_running d cats ps pcs) = PhasePlaying"
      "onGameEnd_calls (App_running d cats ps pcs) = []"
    using App_running_fields [of d c cs ps pcs] assms(2) unfolding cats by auto
  from clock_run [OF g(1,2,3) assms(3) g(5), of es] show ?thesis
    unfolding Let_def using g(4,6) by auto
qed

theorem round_clock_witness:
  "[animals] \<noteq> [] \<and> (1 / 2) * 60 = (of_nat 30 :: rat) \<and> (1::nat) \<le> 30 \<and>
   app_gameState (run (Click True # replicate 30 TimerTick @ [Click False, TimerTick])
     (App_running (1 / 2) [animals] [''Cat'', ''Dog''] [])) = PhaseEnd \<and>
   onGameEnd_calls (run (Click True # replicate 30 TimerTick @ [Click False, TimerTick])
     (App_running (1 / 2) [animals] [''Cat'', ''Dog''] [])) =
     [app_results (run (Click True # replicate 30 TimerTick @ [Click False, TimerTick])
        (App_running (1 / 2) [animals] [''Cat'', ''Dog''] []))] \<and>
   map correct (app_results (run (Click True # replicate 30 TimerTick @ [Click False, TimerTick])
     (App_running (1 / 2) [animals] [''Cat'', ''Dog''] []))) = [True]"
proof -
  let ?es = "Click True # replicate 30 TimerTick @ [Click False, TimerTick]"
  have h1: "[animals] \<noteq> []" by simp
  have h2: "(1 / 2) * 60 = (of_nat 30 :: rat)" by simp
  have h3: "(1::nat) \<le> 30" by simp
  have tk: "30 \<le> ticks ?es" by code_simp
  have ck: "clicks (until_tick 30 ?es) = [True]" by code_simp
  note t = round_clock [OF h1 h2 h3, where es = ?es and ps = "[''Cat'', ''Dog'']" and pcs = "[]",
      unfolded Let_def]
  from t tk have c1: "app_gameState (run ?es (App_running (1 / 2) [animals] [''Cat'', ''Dog''] [])) = PhaseEnd"
    by blast
  from t tk have c2: "onGameEnd_calls (run ?es (App_running (1 / 2) [animals] [''Cat'', ''Dog''] [])) =
     [app_results (run ?es (App_running (1 / 2) [animals] [''Cat'', ''Dog''] []))]"
    by blast
  from t tk have c3: "map correct (app_results (run ?es (App_running (1 / 2) [animals] [''Cat'', ''Dog''] []))) =
      clicks (until_tick 30 ?es)"
    by blast
  from h1 h2 h3 c1 c2 c3 [unfolded ck] show ?thesis by (intro conjI)
qed

section \<open>A replenishment that settles after the end\<close>

lemma step_keeps_unmounted_after_end:
  "app_gameState s = PhasePlaying \<or> screen s = None \<Longrightarrow>
   app_gameState (step e s) = PhasePlaying \<or> screen (step e s) = None"
  by (cases "screen s"; cases e)
     (simp_all add: step_def timer_tick_def render_def endGame_def)

lemma run_keeps_unmounted_after_end:
  "app_gameState s = PhasePlaying \<or> screen s = None \<Longrightarrow>
   app_gameState (run es s) = PhasePlaying \<or> screen (run es s) = None"
  by (induction es arbitrary: s) (simp_all add: step_keeps_unmounted_after_end)

lemma step_Settle_App:
  "app_results (step (Settle completion rnd) s) = app_results s \<and>
   onGameEnd_calls (step (Settle completion rnd) s) = onGameEnd_calls s \<and>
   prompts (step (Settle completion rnd) s) = prompts s \<and>
   app_gameState (step (Settle completion rnd) s) = app_gameState s \<and>
   map_option results (screen (step (Settle completion rnd) s)) = map_option results (screen s)"
  by (cases "screen s")
     (simp_all add: step_def GameScreen_effects_fields fetchMorePrompts_settle_fields)

text \<open>
  C8. In every state that a round can reach, the settling of a replenishment request
  leaves the results, the prompts and the state of \<open>App\<close>, the calls of \<open>onGameEnd\<close> and the
  results of \<open>GameScreen\<close> as they are. Once the round has ended, \<open>GameScreen\<close> is
  unmounted, and a request that settles then, like every later event, changes nothing
  at all.
\<close>

theorem late_replenishment_discarded:
  "let s = run es (App_playing d cats ps pcs);
       s' = step (Settle completion rnd) s
   in (app_gameState s = PhaseEnd \<longrightarrow> screen s = None \<and> s' = s \<and> run es' s = s) \<and>
      app_results s' = app_results s \<and>
      onGameEnd_calls s' = onGameEnd_calls s \<and>
      prompts s' = prompts s \<and>
      app_gameState s' = app_gameState s \<and>
      map_option results (screen s') = map_option results (screen s)"
proof -
  let ?s = "run es (App_playing d cats ps pcs)"
  have "app_gameState ?s = PhasePlaying \<or> screen ?s = None"
    by (rule run_keeps_unmounted_after_end) (simp add: App_playing_fields)
  then have u: "app_gameState ?s = PhaseEnd \<longrightarrow> screen ?s = None" by auto
  have "screen ?s = None \<longrightarrow> step (Settle completion rnd) ?s = ?s \<and> run es' ?s = ?s"
    by (simp add: run_unmounted step_def)
  with u step_Settle_App [of completion rnd ?s] show ?thesis
    unfolding Let_def by blast
qed

theorem late_replenishment_discarded_witness:
  "app_gameState (run ([CountdownTimeout, CountdownTimeout, CountdownTimeout, Click True] @
       replicate 30 TimerTick) (App_playing (1 / 2) [animals] [''Cat''] [])) = PhaseEnd \<and>
   map_option inflight (screen (run ([CountdownTimeout, CountdownTimeout, CountdownTimeout, Click True] @
       replicate 29 TimerTick) (App_playing (1 / 2) [animals] [''Cat''] []))) =
     Some [fetch_request animals []] \<and>
   step (Settle (Resolved (Some ''Dog'')) (\<lambda>k. 1 / 2))
     (run ([CountdownTimeout, CountdownTimeout, CountdownTimeout, Click True] @
       replicate 30 TimerTick) (App_playing (1 / 2) [animals] [''Cat''] [])) =
     run ([CountdownTimeout, CountdownTimeout, CountdownTimeout, Click True] @
       replicate 30 TimerTick) (App_playing (1 / 2) [animals] [''Cat''] [])"
proof -
  let ?es = "[CountdownTimeout, CountdownTimeout, CountdownTimeout, Click True] @ replicate 30 TimerTick"
  have e: "app_gameState (run ?es (App_playing (1 / 2) [animals] [''Cat''] [])) = PhaseEnd"
    by code_simp
  have f: "map_option inflight (screen (run ([CountdownTimeout, CountdownTimeout, CountdownTimeout, Click True] @
       replicate 29 TimerTick) (App_playing (1 / 2) [animals] [''Cat''] []))) =
     Some [fetch_request animals []]"
    by code_simp
  note t = late_replenishment_discarded [where es = ?es and d = "1 / 2" and cats = "[animals]"
      and ps = "[''Cat'']" and pcs = "[]" and completion = "Resolved (Some ''Dog'')"
      and rnd = "\<lambda>k. 1 / 2" and es' = "[]", unfolded Let_def]
  from t e have c: "step (Settle (Resolved (Some ''Dog'')) (\<lambda>k. 1 / 2))
     (run ?es (App_playing (1 / 2) [animals] [''Cat''] [])) =
     run ?es (App_playing (1 / 2) [animals] [''Cat''] [])"
    by blast
  from e f c show ?thesis by (intro conjI)
qed

section \<open>The prompt supply during a round\<close>


























section \<open>A judgment without a current prompt\<close>

text \<open>
  C4 does not hold of \<open>handleResult\<close>. When a custom category is answered with an empty
  text, the round starts with no prompts. The buttons are rendered all the same, and a
  click on one appends a result and a used prompt that are \<open>undefined\<close>; at the end that
  result is passed to \<open>onGameEnd\<close>.
\<close>

theorem judgment_while_exhausted:
  "startGame (example_world (Resolved (Some []))) (1 / 2) [custom] App_mount =
     App_playing (1 / 2) [custom] [] [] \<and>
   map_option (\<lambda>g. nth_js (availablePrompts (gameState g)) (currentPromptIndex g))
     (screen (App_running (1 / 2) [custom] [] [])) = Some None \<and>
   map_option (\<lambda>g. (results g, usedPrompts (gameState g), currentPromptIndex g))
     (screen (run [Click True, Click False] (App_running (1 / 2) [custom] [] []))) =
     Some ([\<lparr>prompt = None, correct = True\<rparr>, \<lparr>prompt = None, correct = False\<rparr>], [None, None], 0) \<and>
   onGameEnd_calls (run (Click True # replicate 30 TimerTick) (App_running (1 / 2) [custom] [] [])) =
     [[\<lparr>prompt = None, correct = True\<rparr>]]"
  by code_simp

section \<open>startGame\<close>

lemma contributions_length: "length (contributions w ppc k cs) = length cs"
  by (induction cs arbitrary: k) simp_all

lemma contributions_nth:
  "i < length cs \<Longrightarrow>
   contributions w ppc k cs ! i =
     (case categoryPrompts w ppc (k + i) (cs ! i) of Inl e \<Rightarrow> [] | Inr ps \<Rightarrow> ps)"
proof (induction cs arbitrary: k i)
  case Nil
  then show ?case by simp
next
  case (Cons c cs)
  show ?case
  proof (cases i)
    case 0
    then show ?thesis by simp
  next
    case (Suc j)
    then have "j < length cs" using Cons.prems by simp
    from Cons.IH [OF this, of "k + 1"] Suc show ?thesis by simp
  qed
qed

lemma collect_prompts_throws:
  "i < length cs \<Longrightarrow> categoryPrompts w ppc (k + i) (cs ! i) = Inl e \<Longrightarrow>
   collect_prompts w ppc k cs acc = Inl Thrown"
proof (induction cs arbitrary: k i acc)
  case Nil
  then show ?case by simp
next
  case (Cons c cs)
  obtain ap pcs where acc: "acc = (ap, pcs)" by (cases acc)
  show ?case
  proof (cases "categoryPrompts w ppc k c")
    case (Inl e')
    then show ?thesis unfolding acc by (cases e') simp
  next
    case (Inr ps)
    then obtain j where j: "i = Suc j" using Cons.prems by (cases i) auto
    then have "j < length cs" "categoryPrompts w ppc (k + 1 + j) (cs ! j) = Inl e"
      using Cons.prems by simp_all
    from Cons.IH [OF this] Inr show ?thesis unfolding acc by simp
  qed
qed

lemma collect_prompts_completes:
  "(\<forall>i < length cs. \<exists>ps. categoryPrompts w ppc (k + i) (cs ! i) = Inr ps) \<Longrightarrow>
   \<exists>pcs'. collect_prompts w ppc k cs (ap, pcs) =
           Inr (ap @ concat (contributions w ppc k cs), pcs')"
proof (induction cs arbitrary: k ap pcs)
  case Nil
  then show ?case by simp
next
  case (Cons c cs)
  from Cons.prems [rule_format, of 0] obtain ps where ps: "categoryPrompts w ppc k c = Inr ps"
    by auto
  have "\<forall>i < length cs. \<exists>ps. categoryPrompts w ppc (k + 1 + i) (cs ! i) = Inr ps"
  proof (intro allI impI)
    fix i assume "i < length cs"
    then show "\<exists>ps. categoryPrompts w ppc (k + 1 + i) (cs ! i) = Inr ps"
      using Cons.prems [rule_format, of "Suc i"] by simp
  qed
  from Cons.IH [OF this, of "ap @ ps" "foldl (\<lambda>m p. AList.update p (name_cat c) m) pcs ps"] ps
  show ?case by simp
qed

lemma categoryPrompts_cases:
  "categoryPrompts w ppc k c = Inl e \<longleftrightarrow>
     id_cat c = ''custom'' \<and> isOnline w k \<and> create w k (custom_request ppc c) = Rejected"
  by (cases e) (simp add: categoryPrompts_def split: Completion.split)

lemma ceil_quota: "1 \<le> n \<Longrightarrow> 50 \<le> n * nat \<lceil>(50 :: rat) / of_nat n\<rceil>"
proof -
  assume n: "1 \<le> n"
  let ?c = "\<lceil>(50 :: rat) / of_nat n\<rceil>"
  have pos: "(0 :: rat) < of_nat n" using n by simp
  have "(50 :: rat) / of_nat n \<le> of_int ?c" by (rule le_of_int_ceiling)
  then have "(50 :: rat) / of_nat n * of_nat n \<le> of_int ?c * of_nat n"
    using pos by (intro mult_right_mono) simp_all
  moreover have "(50 :: rat) / of_nat n * of_nat n = 50" using pos by simp
  ultimately have 1: "(50 :: rat) \<le> of_int ?c * of_nat n" by (simp only:)
  have "(0 :: rat) \<le> 50 / of_nat n" by simp
  then have "(-1 :: rat) < 50 / of_nat n" by linarith
  then have c0: "0 \<le> ?c" by (simp only: zero_le_ceiling)
  have "of_int ?c * (of_nat n :: rat) = of_int (?c * int n)" by simp
  with 1 have "(of_int 50 :: rat) \<le> of_int (?c * int n)" by (simp only: of_int_numeral)
  then have "50 \<le> ?c * int n" by (simp only: of_int_le_iff)
  then have "50 \<le> int (nat ?c) * int n" using c0 by simp
  then have "int 50 \<le> int (nat ?c * n)" by (simp only: of_nat_mult of_nat_numeral)
  then have "50 \<le> nat ?c * n" by (simp only: of_nat_le_iff)
  then show ?thesis by (simp only: mult.commute)
qed

lemma length_concat_uniform:
  "(\<forall>i < length xss. length (xss ! i) = m) \<Longrightarrow> length (concat xss) = length xss * m"
proof (induction xss)
  case Nil
  then show ?case by simp
next
  case (Cons xs xss)
  have "length xs = m" using Cons.prems [rule_format, of 0] by simp
  moreover have "\<forall>i < length xss. length (xss ! i) = m"
  proof (intro allI impI)
    fix i assume "i < length xss"
    then show "length (xss ! i) = m" using Cons.prems [rule_format, of "Suc i"] by simp
  qed
  ultimately show ?case using Cons.IH by simp
qed

lemma startGame_caught:
  assumes "collect_prompts w (promptsPerCategory cats) 0 (sampled_categories w cats) ([], []) = Inl e"
  shows "startGame w d cats s = s\<lparr>isLoading := False\<rparr>"
  using assms by (simp add: startGame_def Let_def)

lemma startGame_completed:
  assumes "collect_prompts w (promptsPerCategory cats) 0 (sampled_categories w cats) ([], []) =
             Inr (allPrompts, pcs)"
  shows "app_gameState (startGame w d cats s) = PhasePlaying"
    and "\<not> isLoading (startGame w d cats s)"
    and "prompts (startGame w d cats s) = shuffleArray (random w) allPrompts"
  using assms
  by (simp_all add: startGame_def Let_def render_def split: option.split list.split)

lemma parse_lines_blank:
  "parse_lines None = []"
  "(\<forall>l \<in> set (split_lines t). strip_numbering l = []) \<Longrightarrow> parse_lines (Some t) = []"
  by (simp_all add: parse_lines_def filter_empty_conv)

lemma contribution_of_category:
  assumes "k < length cs"
  shows "contributions w ppc 0 cs ! k =
           (if id_cat (cs ! k) \<noteq> ''custom''
            then getRandomOptionsForCategory w k (id_cat (cs ! k)) ppc
            else if \<not> isOnline w k then [''Custom categories require internet connection'']
            else (case create w k (custom_request ppc (cs ! k)) of
                    Rejected \<Rightarrow> []
                  | Resolved c \<Rightarrow> parse_lines c))"
  using assms
  by (simp add: contributions_nth categoryPrompts_def split: Completion.split)

text \<open>
  C6, as amended. If the request of \<open>startGame\<close> for a custom category throws (the
  network is up and the promise is rejected, or the answer has no first choice), the
  \<open>catch\<close> clause ends the setup: \<open>isLoading\<close> is cleared and nothing else changes, so
  no round starts and the prompts of the other categories are dropped. In every other
  case the round starts with the shuffled prompts of all categories, a permutation of
  what they contributed: a category of the catalogue contributes what the sampler
  returns, a custom category without network the one prompt that says so, and a custom
  category with network the lines of the answer, which are none when the content is
  \<open>null\<close> or has no line that is not empty once its numbering is removed. In both cases
  \<open>startGame\<close> returns a state of \<open>App\<close>: no exception leaves it.
\<close>

theorem startGame_generator_failure:
  "let ppc = promptsPerCategory cats;
       cs = sampled_categories w cats;
       s' = startGame w d cats s;
       throws = (\<exists>k < length cs. id_cat (cs ! k) = ''custom'' \<and> isOnline w k \<and>
                   create w k (custom_request ppc (cs ! k)) = Rejected)
   in (throws \<longrightarrow> s' = s\<lparr>isLoading := False\<rparr>) \<and>
      (\<not> throws \<longrightarrow>
         app_gameState s' = PhasePlaying \<and> \<not> isLoading s' \<and>
         prompts s' = shuffleArray (random w) (concat (contributions w ppc 0 cs)) \<and>
         (unit_interval (random w) \<longrightarrow>
            mset (prompts s') = mset (concat (contributions w ppc 0 cs))) \<and>
         length (contributions w ppc 0 cs) = length cs \<and>
         (\<forall>k < length cs.
            contributions w ppc 0 cs ! k =
              (if id_cat (cs ! k) \<noteq> ''custom''
               then getRandomOptionsForCategory w k (id_cat (cs ! k)) ppc
               else if \<not> isOnline w k then [''Custom categories require internet connection'']
               else (case create w k (custom_request ppc (cs ! k)) of
                       Rejected \<Rightarrow> []
                     | Resolved c \<Rightarrow> parse_lines c))) \<and>
         (\<forall>k < length cs. \<forall>c.
            id_cat (cs ! k) = ''custom'' \<and> isOnline w k \<and>
            create w k (custom_request ppc (cs ! k)) = Resolved c \<and>
            (c = None \<or> (\<exists>t. c = Some t \<and> (\<forall>l \<in> set (split_lines t). strip_numbering l = []))) \<longrightarrow>
            contributions w ppc 0 cs ! k = []))"
proof -
  let ?ppc = "promptsPerCategory cats" and ?cs = "sampled_categories w cats"
  let ?throws = "\<exists>k < length ?cs. id_cat (?cs ! k) = ''custom'' \<and> isOnline w k \<and>
                   create w k (custom_request ?ppc (?cs ! k)) = Rejected"
  have a: "startGame w d cats s = s\<lparr>isLoading := False\<rparr>" if ?throws
  proof -
    from that obtain k where k: "k < length ?cs"
        "categoryPrompts w ?ppc (0 + k) (?cs ! k) = Inl Thrown"
      by (auto simp add: categoryPrompts_cases)
    from collect_prompts_throws [OF k] show ?thesis by (rule startGame_caught)
  qed
  have b: "app_gameState (startGame w d cats s) = PhasePlaying \<and>
         \<not> isLoading (startGame w d cats s) \<and>
         prompts (startGame w d cats s) =
           shuffleArray (random w) (concat (contributions w ?ppc 0 ?cs)) \<and>
         (unit_interval (random w) \<longrightarrow>
            mset (prompts (startGame w d cats s)) = mset (concat (contributions w ?ppc 0 ?cs))) \<and>
         length (contributions w ?ppc 0 ?cs) = length ?cs"
    if ok: "\<not> ?throws"
  proof -
    have "\<forall>i < length ?cs. \<exists>ps. categoryPrompts w ?ppc (0 + i) (?cs ! i) = Inr ps"
    proof (intro allI impI)
      fix i assume i: "i < length ?cs"
      show "\<exists>ps. categoryPrompts w ?ppc (0 + i) (?cs ! i) = Inr ps"
      proof (cases "categoryPrompts w ?ppc (0 + i) (?cs ! i)")
        case (Inl e)
        then have "id_cat (?cs ! i) = ''custom'' \<and> isOnline w i \<and>
                   create w i (custom_request ?ppc (?cs ! i)) = Rejected"
          by (simp add: categoryPrompts_cases)
        then show ?thesis using ok i by blast
      next
        case (Inr ps)
        then show ?thesis by simp
      qed
    qed
    from collect_prompts_completes [OF this, of "[]" "[]"] obtain pcs' where
      c: "collect_prompts w ?ppc 0 ?cs ([], []) = Inr (concat (contributions w ?ppc 0 ?cs), pcs')"
      by auto
    note st = startGame_completed [OF c, of d s]
    have "unit_interval (random w) \<longrightarrow>
            mset (prompts (startGame w d cats s)) = mset (concat (contributions w ?ppc 0 ?cs))"
      unfolding st(3) by (simp add: shuffleArray_mset)
    with st show ?thesis by (simp add: contributions_length)
  qed
  have c: "\<forall>k < length ?cs.
            contributions w ?ppc 0 ?cs ! k =
              (if id_cat (?cs ! k) \<noteq> ''custom''
               then getRandomOptionsForCategory w k (id_cat (?cs ! k)) ?ppc
               else if \<not> isOnline w k then [''Custom categories require internet connection'']
               else (case create w k (custom_request ?ppc (?cs ! k)) of
                       Rejected \<Rightarrow> []
                     | Resolved c \<Rightarrow> parse_lines c))"
    using contribution_of_category by blast
  have e: "\<forall>k < length ?cs. \<forall>c.
            id_cat (?cs ! k) = ''custom'' \<and> isOnline w k \<and>
            create w k (custom_request ?ppc (?cs ! k)) = Resolved c \<and>
            (c = None \<or> (\<exists>t. c = Some t \<and> (\<forall>l \<in> set (split_lines t). strip_numbering l = []))) \<longrightarrow>
            contributions w ?ppc 0 ?cs ! k = []"
  proof (intro allI impI)
    fix k c
    assume k: "k < length ?cs"
      and h: "id_cat (?cs ! k) = ''custom'' \<and> isOnline w k \<and>
            create w k (custom_request ?ppc (?cs ! k)) = Resolved c \<and>
            (c = None \<or> (\<exists>t. c = Some t \<and> (\<forall>l \<in> set (split_lines t). strip_numbering l = [])))"
    then have "parse_lines c = []" using parse_lines_blank by blast
    then show "contributions w ?ppc 0 ?cs ! k = []"
      using contribution_of_category [OF k, of w ?ppc] h by simp
  qed
  show ?thesis
    unfolding Let_def
  proof (intro conjI impI)
    assume ?throws
    then show "startGame w d cats s = s\<lparr>isLoading := False\<rparr>" by (rule a)
  next
    assume n: "\<not> ?throws"
    note bb = b [OF n]
    show "app_gameState (startGame w d cats s) = PhasePlaying" using bb by (rule conjunct1)
    show "\<not> isLoading (startGame w d cats s)" using bb by blast
    show "prompts (startGame w d cats s) =
           shuffleArray (random w) (concat (contributions w ?ppc 0 ?cs))"
      using bb by blast
    show "mset (prompts (startGame w d cats s)) = mset (concat (contributions w ?ppc 0 ?cs))"
      if "unit_interval (random w)" using bb that by blast
    show "length (contributions w ?ppc 0 ?cs) = length ?cs" using bb by blast
    show "\<forall>k < length ?cs.
            contributions w ?ppc 0 ?cs ! k =
              (if id_cat (?cs ! k) \<noteq> ''custom''
               then getRandomOptionsForCategory w k (id_cat (?cs ! k)) ?ppc
               else if \<not> isOnline w k then [''Custom categories require internet connection'']
               else (case create w k (custom_request ?ppc (?cs ! k)) of
                       Rejected \<Rightarrow> []
                     | Resolved c \<Rightarrow> parse_lines c))"
      by (rule c)
    show "\<forall>k < length ?cs. \<forall>c.
            id_cat (?cs ! k) = ''custom'' \<and> isOnline w k \<and>
            create w k (custom_request ?ppc (?cs ! k)) = Resolved c \<and>
            (c = None \<or> (\<exists>t. c = Some t \<and> (\<forall>l \<in> set (split_lines t). strip_numbering l = []))) \<longrightarrow>
            contributions w ?ppc 0 ?cs ! k = []"
      by (rule e)
  qed
qed

theorem startGame_generator_failure_witness:
  "(1 < length (sampled_categories (example_world Rejected) [animals, custom]) \<and>
    id_cat (sampled_categories (example_world Rejected) [animals, custom] ! 1) = ''custom'' \<and>
    isOnline (example_world Rejected) 1 \<and>
    create (example_world Rejected) 1
      (custom_request (promptsPerCategory [animals, custom])
         (sampled_categories (example_world Rejected) [animals, custom] ! 1)) = Rejected) \<and>
   startGame (example_world Rejected) 1 [animals, custom] App_mount = App_mount\<lparr>isLoading := False\<rparr> \<and>
   app_gameState (startGame (example_world (Resolved (Some ''\<newline>''))) 1 [animals, custom] App_mount) =
     PhasePlaying \<and>
   contributions (example_world (Resolved (Some ''\<newline>''))) (promptsPerCategory [animals, custom]) 0
     (sampled_categories (example_world (Resolved (Some ''\<newline>''))) [animals, custom]) ! 1 = [] \<and>
   app_gameState (startGame ((example_world Rejected)\<lparr>isOnline := \<lambda>k. False\<rparr>) 1 [animals, custom] App_mount) =
     PhasePlaying \<and>
   mset (prompts (startGame ((example_world Rejected)\<lparr>isOnline := \<lambda>k. False\<rparr>) 1 [animals, custom] App_mount)) =
     mset (concat (contributions ((example_world Rejected)\<lparr>isOnline := \<lambda>k. False\<rparr>)
        (promptsPerCategory [animals, custom]) 0
        (sampled_categories ((example_world Rejected)\<lparr>isOnline := \<lambda>k. False\<rparr>) [animals, custom])))"
proof -
  let ?w = "example_world Rejected" and ?v = "example_world (Resolved (Some ''\<newline>''))"
  let ?o = "(example_world Rejected)\<lparr>isOnline := \<lambda>k. False\<rparr>"
  let ?ppc = "promptsPerCategory [animals, custom]"
  have h: "1 < length (sampled_categories ?w [animals, custom]) \<and>
    id_cat (sampled_categories ?w [animals, custom] ! 1) = ''custom'' \<and>
    isOnline ?w 1 \<and>
    create ?w 1 (custom_request ?ppc (sampled_categories ?w [animals, custom] ! 1)) = Rejected"
    by code_simp
  then have th: "\<exists>k < length (sampled_categories ?w [animals, custom]).
      id_cat (sampled_categories ?w [animals, custom] ! k) = ''custom'' \<and> isOnline ?w k \<and>
      create ?w k (custom_request ?ppc (sampled_categories ?w [animals, custom] ! k)) = Rejected"
    by blast
  note t = startGame_generator_failure [where w = ?w and cats = "[animals, custom]" and d = 1
      and s = App_mount, unfolded Let_def]
  have c1: "startGame ?w 1 [animals, custom] App_mount = App_mount\<lparr>isLoading := False\<rparr>"
    by (rule t [THEN conjunct1, THEN mp, OF th])
  have nv: "\<not> (\<exists>k < length (sampled_categories ?v [animals, custom]).
      id_cat (sampled_categories ?v [animals, custom] ! k) = ''custom'' \<and> isOnline ?v k \<and>
      create ?v k (custom_request ?ppc (sampled_categories ?v [animals, custom] ! k)) = Rejected)"
    by (simp add: example_world_def)
  note u = startGame_generator_failure [where w = ?v and cats = "[animals, custom]" and d = 1
      and s = App_mount, unfolded Let_def, THEN conjunct2, THEN mp, OF nv]
  have c2: "app_gameState (startGame ?v 1 [animals, custom] App_mount) = PhasePlaying"
    by (rule u [THEN conjunct1])
  have g: "1 < length (sampled_categories ?v [animals, custom]) \<and>
     id_cat (sampled_categories ?v [animals, custom] ! 1) = ''custom'' \<and> isOnline ?v 1 \<and>
     create ?v 1 (custom_request ?ppc (sampled_categories ?v [animals, custom] ! 1)) =
       Resolved (Some ''\<newline>'') \<and>
     (\<forall>l \<in> set (split_lines ''\<newline>''). strip_numbering l = [])"
    by code_simp
  have blank: "\<forall>k < length (sampled_categories ?v [animals, custom]). \<forall>c.
            id_cat (sampled_categories ?v [animals, custom] ! k) = ''custom'' \<and> isOnline ?v k \<and>
            create ?v k (custom_request ?ppc (sampled_categories ?v [animals, custom] ! k)) = Resolved c \<and>
            (c = None \<or> (\<exists>t. c = Some t \<and> (\<forall>l \<in> set (split_lines t). strip_numbering l = []))) \<longrightarrow>
            contributions ?v ?ppc 0 (sampled_categories ?v [animals, custom]) ! k = []"
    by (rule u [THEN conjunct2, THEN conjunct2, THEN conjunct2, THEN conjunct2, THEN conjunct2,
          THEN conjunct2])
  from blank g have c3: "contributions ?v ?ppc 0 (sampled_categories ?v [animals, custom]) ! 1 = []"
    by blast
  have no: "\<not> (\<exists>k < length (sampled_categories ?o [animals, custom]).
      id_cat (sampled_categories ?o [animals, custom] ! k) = ''custom'' \<and> isOnline ?o k \<and>
      create ?o k (custom_request ?ppc (sampled_categories ?o [animals, custom] ! k)) = Rejected)"
    by simp
  note v = startGame_generator_failure [where w = ?o and cats = "[animals, custom]" and d = 1
      and s = App_mount, unfolded Let_def, THEN conjunct2, THEN mp, OF no]
  have c4: "app_gameState (startGame ?o 1 [animals, custom] App_mount) = PhasePlaying"
    by (rule v [THEN conjunct1])
  have uo: "unit_interval (random ?o)" by (simp add: example_world_def unit_interval_def)
  have c5: "mset (prompts (startGame ?o 1 [animals, custom] App_mount)) =
     mset (concat (contributions ?o ?ppc 0 (sampled_categories ?o [animals, custom])))"
    by (rule v [THEN conjunct2, THEN conjunct2, THEN conjunct2, THEN conjunct1, THEN mp, OF uo])
  from h c1 c2 c3 c4 c5 show ?thesis by blast
qed

text \<open>
  The claim C6 as it was stated fails: with the categories \<open>animals\<close> and \<open>custom\<close>
  selected and a generator that rejects the request, \<open>animals\<close> has supplied 25 prompts
  when the exception is caught, and no round starts.
\<close>

theorem startGame_generator_failure_counterexample:
  "categoryPrompts (example_world Rejected) (promptsPerCategory [animals, custom]) 0 animals =
     Inr (map (\<lambda>i. ''animals '' @ toString_nat i) [0..<25]) \<and>
   categoryPrompts (example_world Rejected) (promptsPerCategory [animals, custom]) 1 custom =
     Inl Thrown \<and>
   app_gameState (startGame (example_world Rejected) 1 [animals, custom] App_mount) \<noteq> PhasePlaying \<and>
   prompts (startGame (example_world Rejected) 1 [animals, custom] App_mount) = [] \<and>
   screen (startGame (example_world Rejected) 1 [animals, custom] App_mount) = None"
  by code_simp

lemma length_concat_at_least:
  "(\<forall>i < length xss. m \<le> length (xss ! i)) \<Longrightarrow> length xss * m \<le> length (concat xss)"
proof (induction xss)
  case Nil
  then show ?case by simp
next
  case (Cons xs xss)
  have "m \<le> length xs" using Cons.prems [rule_format, of 0] by simp
  moreover have "\<forall>i < length xss. m \<le> length (xss ! i)"
  proof (intro allI impI)
    fix i assume "i < length xss"
    then show "m \<le> length (xss ! i)" using Cons.prems [rule_format, of "Suc i"] by simp
  qed
  ultimately show ?case using Cons.IH by simp
qed

lemma startGame_total:
  assumes ok: "\<forall>k < length (sampled_categories w cats).
      \<exists>ps. categoryPrompts w (promptsPerCategory cats) k (sampled_categories w cats ! k) = Inr ps"
  shows "app_gameState (startGame w d cats s) = PhasePlaying"
    and "length (prompts (startGame w d cats s)) =
           length (concat (contributions w (promptsPerCategory cats) 0 (sampled_categories w cats)))"
proof -
  let ?ppc = "promptsPerCategory cats" and ?cs = "sampled_categories w cats"
  have "\<forall>i < length ?cs. \<exists>ps. categoryPrompts w ?ppc (0 + i) (?cs ! i) = Inr ps"
    using ok by simp
  from collect_prompts_completes [OF this, of "[]" "[]"] obtain pcs' where
    c: "collect_prompts w ?ppc 0 ?cs ([], []) = Inr (concat (contributions w ?ppc 0 ?cs), pcs')"
    by auto
  show "app_gameState (startGame w d cats s) = PhasePlaying"
    by (rule startGame_completed(1) [OF c])
  show "length (prompts (startGame w d cats s)) = length (concat (contributions w ?ppc 0 ?cs))"
    using startGame_completed(3) [OF c] by (simp add: shuffleArray_length)
qed

lemma quota_total: "cats \<noteq> [] \<Longrightarrow> sampled_categories w cats \<noteq> [] \<Longrightarrow>
  50 \<le> length (sampled_categories w cats) * promptsPerCategory cats"
proof (cases "length cats = 1 \<and> id_cat (cats ! 0) = ''misc''")
  case True
  assume "sampled_categories w cats \<noteq> []"
  then have "1 \<le> length (sampled_categories w cats)" by (cases "sampled_categories w cats") simp_all
  moreover have "promptsPerCategory cats = 50" using True by (simp add: promptsPerCategory_def)
  ultimately show ?thesis by simp
next
  case False
  assume "cats \<noteq> []"
  then have "1 \<le> length cats" by (cases cats) simp_all
  moreover have "sampled_categories w cats = cats" using False by (auto simp add: sampled_categories_def)
  ultimately show ?thesis using ceil_quota [of "length cats"] by (simp add: promptsPerCategory_def)
qed

text \<open>
  The quota of \<open>startGame\<close> is \<open>Math.ceil(50 / categories.length)\<close> for the categories as
  they were selected. The "all categories" entry alone is replaced by every category of
  the catalogue but \<open>custom\<close> and \<open>misc\<close>; any other selection is sampled as it is. Every
  sampled category is asked for the same quota. When at least one category is sampled
  and each delivers at least the quota, the round starts with at least 50 prompts; when
  each delivers exactly the quota, with the number of sampled categories times the quota.
\<close>

lemma startGame_quota:
  "let ppc = promptsPerCategory cats;
       cs = sampled_categories w cats;
       s' = startGame w d cats s
   in ppc = nat \<lceil>(50 :: rat) / of_nat (length cats)\<rceil> \<and>
      (length cats = 1 \<and> id_cat (cats ! 0) = ''misc'' \<longrightarrow>
         cs = filter (\<lambda>c. id_cat c \<noteq> ''custom'' \<and> id_cat c \<noteq> ''misc'') (ALL_CATEGORIES w) \<and>
         ppc = 50) \<and>
      (\<not> (length cats = 1 \<and> id_cat (cats ! 0) = ''misc'') \<longrightarrow> cs = cats) \<and>
      (\<forall>k < length cs. id_cat (cs ! k) \<noteq> ''custom'' \<longrightarrow>
         contributions w ppc 0 cs ! k = getRandomOptionsForCategory w k (id_cat (cs ! k)) ppc) \<and>
      (cats \<noteq> [] \<and> cs \<noteq> [] \<and>
       (\<forall>k < length cs. \<exists>ps. categoryPrompts w ppc k (cs ! k) = Inr ps \<and> ppc \<le> length ps) \<longrightarrow>
         app_gameState s' = PhasePlaying \<and>
         length cs * ppc \<le> length (prompts s') \<and> 50 \<le> length (prompts s')) \<and>
      ((\<forall>k < length cs. \<exists>ps. categoryPrompts w ppc k (cs ! k) = Inr ps \<and> length ps = ppc) \<longrightarrow>
         app_gameState s' = PhasePlaying \<and> length (prompts s') = length cs * ppc)"
proof -
  let ?ppc = "promptsPerCategory cats" and ?cs = "sampled_categories w cats"
  have 1: "?ppc = nat \<lceil>(50 :: rat) / of_nat (length cats)\<rceil>"
    by (simp add: promptsPerCategory_def)
  have 2: "length cats = 1 \<and> id_cat (cats ! 0) = ''misc'' \<longrightarrow>
         ?cs = filter (\<lambda>c. id_cat c \<noteq> ''custom'' \<and> id_cat c \<noteq> ''misc'') (ALL_CATEGORIES w) \<and>
         ?ppc = 50"
    by (simp add: sampled_categories_def promptsPerCategory_def)
  have 3: "\<not> (length cats = 1 \<and> id_cat (cats ! 0) = ''misc'') \<longrightarrow> ?cs = cats"
    by (simp add: sampled_categories_def)
  have 4: "\<forall>k < length ?cs. id_cat (?cs ! k) \<noteq> ''custom'' \<longrightarrow>
         contributions w ?ppc 0 ?cs ! k = getRandomOptionsForCategory w k (id_cat (?cs ! k)) ?ppc"
    by (simp add: contributions_nth categoryPrompts_def)
  have 5: "app_gameState (startGame w d cats s) = PhasePlaying \<and>
         length ?cs * ?ppc \<le> length (prompts (startGame w d cats s)) \<and>
         50 \<le> length (prompts (startGame w d cats s))"
    if ne: "cats \<noteq> []" "?cs \<noteq> []"
      and ok: "\<forall>k < length ?cs. \<exists>ps. categoryPrompts w ?ppc k (?cs ! k) = Inr ps \<and> ?ppc \<le> length ps"
  proof -
    have ok': "\<forall>k < length ?cs. \<exists>ps. categoryPrompts w ?ppc k (?cs ! k) = Inr ps"
      using ok by blast
    have "\<forall>i < length (contributions w ?ppc 0 ?cs). ?ppc \<le> length (contributions w ?ppc 0 ?cs ! i)"
    proof (intro allI impI)
      fix i assume "i < length (contributions w ?ppc 0 ?cs)"
      then have i: "i < length ?cs" by (simp add: contributions_length)
      from ok i obtain ps where "categoryPrompts w ?ppc i (?cs ! i) = Inr ps" "?ppc \<le> length ps"
        by blast
      then show "?ppc \<le> length (contributions w ?ppc 0 ?cs ! i)"
        using i by (simp add: contributions_nth)
    qed
    from length_concat_at_least [OF this]
    have "length ?cs * ?ppc \<le> length (concat (contributions w ?ppc 0 ?cs))"
      by (simp add: contributions_length)
    then have l: "length ?cs * ?ppc \<le> length (prompts (startGame w d cats s))"
      using startGame_total(2) [OF ok'] by simp
    with quota_total [OF ne] startGame_total(1) [OF ok'] show ?thesis by simp
  qed
  have 6: "app_gameState (startGame w d cats s) = PhasePlaying \<and>
         length (prompts (startGame w d cats s)) = length ?cs * ?ppc"
    if ok: "\<forall>k < length ?cs. \<exists>ps. categoryPrompts w ?ppc k (?cs ! k) = Inr ps \<and> length ps = ?ppc"
  proof -
    have ok': "\<forall>k < length ?cs. \<exists>ps. categoryPrompts w ?ppc k (?cs ! k) = Inr ps"
      using ok by blast
    have "\<forall>i < length (contributions w ?ppc 0 ?cs). length (contributions w ?ppc 0 ?cs ! i) = ?ppc"
    proof (intro allI impI)
      fix i assume "i < length (contributions w ?ppc 0 ?cs)"
      then have i: "i < length ?cs" by (simp add: contributions_length)
      from ok i obtain ps where "categoryPrompts w ?ppc i (?cs ! i) = Inr ps" "length ps = ?ppc"
        by blast
      then show "length (contributions w ?ppc 0 ?cs ! i) = ?ppc"
        using i by (simp add: contributions_nth)
    qed
    from length_concat_uniform [OF this]
    have "length (concat (contributions w ?ppc 0 ?cs)) = length ?cs * ?ppc"
      by (simp add: contributions_length)
    with startGame_total [OF ok'] show ?thesis by simp
  qed
  show ?thesis unfolding Let_def using 1 2 3 4 5 6 by blast
qed

text \<open>
  C7 does not hold of \<open>startGame\<close> when "all categories" is selected: the quota is
  computed from \<open>categories.length\<close> one statement before \<open>categories\<close> is replaced by the
  categories of the catalogue. With a catalogue of two such categories, each is asked
  for 50 prompts, not for \<open>Math.ceil(50 / 2) = 25\<close>, and the round starts with 100
  prompts; the same two categories selected by hand are asked for 25 each, and the
  round starts with 50.
\<close>

theorem startGame_quota_all_categories:
  "sampled_categories (example_world Rejected) [misc] = [animals, movies] \<and>
   promptsPerCategory [misc] = 50 \<and>
   nat \<lceil>(50 :: rat) / of_nat (length (sampled_categories (example_world Rejected) [misc]))\<rceil> = 25 \<and>
   app_gameState (startGame (example_world Rejected) 1 [misc] App_mount) = PhasePlaying \<and>
   length (prompts (startGame (example_world Rejected) 1 [misc] App_mount)) = 2 * 50 \<and>
   promptsPerCategory [animals, movies] = 25 \<and>
   length (prompts (startGame (example_world Rejected) 1 [animals, movies] App_mount)) = 2 * 25"
proof -
  let ?w = "example_world Rejected"
  have cs: "sampled_categories ?w [misc] = [animals, movies]" by code_simp
  have p: "promptsPerCategory [misc] = 50" by code_simp
  have q: "nat \<lceil>(50 :: rat) / of_nat (length (sampled_categories ?w [misc]))\<rceil> = 25"
    by code_simp
  have ok: "\<forall>k < length (sampled_categories ?w [misc]).
      \<exists>ps. categoryPrompts ?w (promptsPerCategory [misc]) k (sampled_categories ?w [misc] ! k) = Inr ps \<and>
           length ps = promptsPerCategory [misc]"
    unfolding cs p
    by (simp add: categoryPrompts_def example_world_def animals_def movies_def less_Suc_eq)
  note t = startGame_quota [where w = ?w and cats = "[misc]" and d = 1 and s = App_mount,
      unfolded Let_def]
  from t ok have a: "app_gameState (startGame ?w 1 [misc] App_mount) = PhasePlaying \<and>
     length (prompts (startGame ?w 1 [misc] App_mount)) =
       length (sampled_categories ?w [misc]) * promptsPerCategory [misc]"
    by blast
  have cs2: "sampled_categories ?w [animals, movies] = [animals, movies]" by code_simp
  have p2: "promptsPerCategory [animals, movies] = 25" by code_simp
  have ok2: "\<forall>k < length (sampled_categories ?w [animals, movies]).
      \<exists>ps. categoryPrompts ?w (promptsPerCategory [animals, movies]) k
             (sampled_categories ?w [animals, movies] ! k) = Inr ps \<and>
           length ps = promptsPerCategory [animals, movies]"
    unfolding cs2 p2
    by (simp add: categoryPrompts_def example_world_def animals_def movies_def less_Suc_eq)
  note t2 = startGame_quota [where w = ?w and cats = "[animals, movies]" and d = 1 and s = App_mount,
      unfolded Let_def]
  from t2 ok2 have b: "length (prompts (startGame ?w 1 [animals, movies] App_mount)) =
       length (sampled_categories ?w [animals, movies]) * promptsPerCategory [animals, movies]"
    by blast
  from cs p q a [unfolded cs p] p2 b [unfolded cs2 p2] show ?thesis by simp
qed

section \<open>The fairness of shuffleArray\<close>

lemma shuffle_loop_by:
  "shuffle_loop i rnd k xs =
     shuffle_by i (map (\<lambda>m. nat \<lfloor>rnd (k + m) * of_nat (i + 1 - m)\<rfloor>) [0..<i]) xs"
proof (induction i arbitrary: k xs)
  case 0
  then show ?case by simp
next
  case (Suc i)
  have u: "[0..<Suc i] = 0 # map Suc [0..<i]"
    by (simp add: upt_conv_Cons map_Suc_upt del: upt_Suc)
  show ?case
    unfolding u by (simp add: Let_def Suc.IH comp_def del: upt_Suc)
qed

lemma shuffleArray_by:
  "shuffleArray rnd xs = shuffle_by (length xs - 1) (choices (length xs) rnd) xs"
proof (cases xs)
  case Nil
  then show ?thesis by (simp add: shuffleArray_def choices_def)
next
  case (Cons x ys)
  have "map (\<lambda>m. nat \<lfloor>rnd (0 + m) * of_nat (length ys + 1 - m)\<rfloor>) [0..<length ys] =
        map (\<lambda>k. nat \<lfloor>rnd k * of_nat (Suc (length ys) - k)\<rfloor>) [0..<length ys]"
    by simp
  then show ?thesis
    unfolding Cons shuffleArray_def choices_def shuffle_loop_by by simp
qed



lemma shuffle_by_length: "length (shuffle_by i js xs) = length xs"
  by (induction i js xs rule: shuffle_by.induct) simp_all


lemma swap_nth_top:
  "j \<le> i \<Longrightarrow> i < length xs \<Longrightarrow> xs[i := xs ! j, j := xs ! i] ! i = xs ! j"
  by (cases "j = i") simp_all


lemma shuffle_by_surj:
  "i < length xs \<Longrightarrow> length ys = length xs \<Longrightarrow>
   (\<forall>m. i < m \<and> m < length xs \<longrightarrow> ys ! m = xs ! m) \<Longrightarrow>
   mset (take (Suc i) ys) = mset (take (Suc i) xs) \<Longrightarrow>
   \<exists>js. valid_choices i js \<and> shuffle_by i js xs = ys"
proof (induction i arbitrary: xs)
  case 0
  have "ys ! 0 = xs ! 0"
    using "0.prems"(1,2,4) by (simp add: take_Suc_conv_app_nth)
  then have "\<forall>m < length ys. ys ! m = xs ! m"
    using "0.prems"(2,3) by (metis neq0_conv)
  then have "ys = xs" using "0.prems"(2) by (simp add: nth_equalityI)
  then show ?case by (intro exI [of _ "[]"]) simp
next
  case (Suc i)
  let ?n = "Suc (Suc i)"
  have ly: "Suc i < length ys" using Suc.prems(1,2) by simp
  have "ys ! Suc i \<in> set (take ?n ys)"
    using ly by (simp add: take_Suc_conv_app_nth [of "Suc i"])
  then have "ys ! Suc i \<in> set (take ?n xs)"
    using Suc.prems(4) by (metis set_mset_mset)
  then obtain j where j: "j < ?n" "j < length xs" "xs ! j = ys ! Suc i"
    by (auto simp add: in_set_conv_nth)
  let ?zs = "xs[Suc i := xs ! j, j := xs ! Suc i]"
  have top: "?zs ! Suc i = ys ! Suc i"
    using swap_nth_top [of j "Suc i" xs] j Suc.prems(1) by simp
  have tk: "take ?n ?zs = (take ?n xs)[Suc i := take ?n xs ! j, j := take ?n xs ! Suc i]"
    using j(1) by (simp add: take_update_swap)
  have "mset (take ?n ?zs) = mset (take ?n xs)"
    unfolding tk using j Suc.prems(1) by (intro mset_swap) simp_all
  then have "mset (take (Suc i) ?zs) + {#?zs ! Suc i#} = mset (take (Suc i) ys) + {#ys ! Suc i#}"
    using Suc.prems(1,4) ly by (simp add: take_Suc_conv_app_nth [of "Suc i"])
  then have m: "mset (take (Suc i) ys) = mset (take (Suc i) ?zs)" using top by simp
  have ag: "\<forall>m. i < m \<and> m < length ?zs \<longrightarrow> ys ! m = ?zs ! m"
  proof (intro allI impI)
    fix m assume a: "i < m \<and> m < length ?zs"
    show "ys ! m = ?zs ! m"
    proof (cases "m = Suc i")
      case True
      then show ?thesis using top by simp
    next
      case False
      then have "Suc i < m" using a by simp
      then show ?thesis using a j(1) Suc.prems(3) by simp
    qed
  qed
  have "\<exists>js. valid_choices i js \<and> shuffle_by i js ?zs = ys"
    using Suc.prems(1,2) ag m by (intro Suc.IH) simp_all
  then obtain js where js: "valid_choices i js" "shuffle_by i js ?zs = ys" by blast
  show ?case
    using js j(1) by (intro exI [of _ "j # js"]) simp
qed


lemma valid_choices_iff:
  "valid_choices i js \<longleftrightarrow> length js = i \<and> (\<forall>k < i. js ! k \<le> i - k)"
proof (induction i arbitrary: js)
  case 0
  then show ?case by auto
next
  case (Suc i)
  show ?case
  proof (cases js)
    case Nil
    then show ?thesis by simp
  next
    case (Cons j t)
    have "(\<forall>k < Suc i. (j # t) ! k \<le> Suc i - k) \<longleftrightarrow> j \<le> Suc i \<and> (\<forall>k < i. t ! k \<le> i - k)"
      by (auto simp add: less_Suc_eq_0_disj)
    then show ?thesis unfolding Cons using Suc.IH [of t] by auto
  qed
qed

lemma floor_of_quotient:
  "0 < m \<Longrightarrow> nat \<lfloor>(of_nat j / of_nat m :: rat) * of_nat m\<rfloor> = j"
  by simp

lemma choices_realised:
  assumes "valid_choices (n - 1) js"
  shows "\<exists>rnd. unit_interval rnd \<and> choices n rnd = js"
proof -
  let ?rnd = "\<lambda>k. if k < n - 1 then (of_nat (js ! k) / of_nat (n - k) :: rat) else 0"
  from assms have l: "length js = n - 1" and b: "\<forall>k < n - 1. js ! k \<le> n - 1 - k"
    by (simp_all add: valid_choices_iff)
  have "unit_interval ?rnd"
    unfolding unit_interval_def
  proof (intro allI)
    fix k
    show "0 \<le> ?rnd k \<and> ?rnd k < 1"
    proof (cases "k < n - 1")
      case True
      then have "js ! k \<le> n - 1 - k" using b by blast
      then have "js ! k < n - k" using True by arith
      then have "(of_nat (js ! k) :: rat) < of_nat (n - k)" by (simp only: of_nat_less_iff)
      then show ?thesis using True by (simp add: divide_less_eq)
    next
      case False
      then show ?thesis by simp
    qed
  qed
  moreover have "choices n ?rnd = js"
  proof (rule nth_equalityI)
    show "length (choices n ?rnd) = length js" by (simp add: choices_def l)
  next
    fix k assume "k < length (choices n ?rnd)"
    then have k: "k < n - 1" by (simp add: choices_def)
    then have "0 < n - k" by simp
    from floor_of_quotient [OF this, of "js ! k"] k show "choices n ?rnd ! k = js ! k"
      by (simp add: choices_def)
  qed
  ultimately show ?thesis by blast
qed














text \<open>
  Every rearrangement of an array is a result of \<open>shuffleArray\<close>, and so every
  rearrangement of the lines of an answer can be what a replenishment appends.
\<close>

lemma shuffleArray_any_rearrangement:
  assumes "mset ys = mset xs"
  shows "\<exists>rnd. unit_interval rnd \<and> shuffleArray rnd xs = ys"
proof (cases xs)
  case Nil
  then have "ys = []" using assms by simp
  then show ?thesis
    using Nil unit_interval_half by (intro exI [of _ "\<lambda>k. 1 / 2"]) (simp add: shuffleArray_def)
next
  case (Cons x zs)
  let ?n = "length xs"
  have l: "length ys = ?n" using assms by (rule mset_eq_length)
  have i: "?n - 1 < length xs" and s: "Suc (?n - 1) = ?n" using Cons by simp_all
  have ag: "\<forall>m. ?n - 1 < m \<and> m < length xs \<longrightarrow> ys ! m = xs ! m" by auto
  have tk: "mset (take (Suc (?n - 1)) ys) = mset (take (Suc (?n - 1)) xs)"
    unfolding s using l assms by simp
  have "\<exists>js. valid_choices (?n - 1) js \<and> shuffle_by (?n - 1) js xs = ys"
    using i l ag tk by (rule shuffle_by_surj)
  then obtain js where js: "valid_choices (?n - 1) js" "shuffle_by (?n - 1) js xs = ys" by blast
  obtain rnd where rnd: "unit_interval rnd" "choices ?n rnd = js"
    using choices_realised [OF js(1)] by blast
  have "shuffleArray rnd xs = ys" using js(2) rnd(2) by (simp add: shuffleArray_by)
  then show ?thesis using rnd(1) by blast
qed

lemma replenishment_any_rearrangement:
  assumes "inflight g \<noteq> []" and "mset ys = mset (parse_lines answer)"
  shows "\<exists>rnd. unit_interval rnd \<and>
           availablePrompts (gameState (fetchMorePrompts_settle (Resolved answer) rnd g)) =
             availablePrompts (gameState g) @ ys"
proof -
  obtain rnd where rnd: "unit_interval rnd" "shuffleArray rnd (parse_lines answer) = ys"
    using shuffleArray_any_rearrangement [OF assms(2)] by blast
  have "availablePrompts (gameState (fetchMorePrompts_settle (Resolved answer) rnd g)) =
          availablePrompts (gameState g) @ ys"
    using assms(1) rnd(2)
    by (cases "inflight g") (simp_all add: fetchMorePrompts_settle_def Let_def)
  then show ?thesis using rnd(1) by blast
qed

end
